theory Spec2Isabelle
  imports Complex_Main "HOL-Library.Multiset" "HOL-Library.Log_Nat"
begin

section \<open>Data model of the collaborative canvas\<close>

text \<open>
  The component \<^verbatim>\<open>collab_collaborativeCanvas.js\<close> keeps three arrays of plain JavaScript
  objects (\<^verbatim>\<open>objects\<close>, \<^verbatim>\<open>strokes\<close>, \<^verbatim>\<open>connectors\<close>) and mutates them from event handlers.
  An object is modelled as a record of the properties the handlers read or write; a property
  that may be absent (\<^verbatim>\<open>undefined\<close>) is an \<open>option\<close>, and a connector property that the code also
  sets to \<^verbatim>\<open>null\<close> is an option of an option (\<open>None\<close> absent, \<open>Some None\<close> \<^verbatim>\<open>null\<close>). JavaScript numbers are
  modelled as real numbers (coordinates, sizes) and as integers (z-indices, millisecond
  clocks), each the value of the double; the arithmetic on them rounds as that of doubles
  does, see the section on numbers. \<^verbatim>\<open>JSON.parse(JSON.stringify(v))\<close> is the
  identity on these values, and the copy it makes is a value of its own.
\<close>

record point =
  pt_x :: real
  pt_y :: real

record anchor =
  objectId :: string
  position :: string

record canvas_object =
  o_id :: string
  o_type :: string
  o_x :: real
  o_y :: real
  o_width :: real
  o_height :: real
  o_zIndex :: "int option"
  o_color :: "string option"
  o_borderColor :: "string option"
  o_borderWidth :: "real option"
  o_text :: "string option"
  o_textAlign :: "string option"
  o_textOverflow :: "string option"
  o_fontSize :: "real option"
  o_children :: "string list option"
  o_connectorIds :: "string list option"

text \<open>
  A stroke drawn locally carries no \<^verbatim>\<open>zIndex\<close> (\<^verbatim>\<open>startDrawing\<close>); a stroke pushed by
  \<^verbatim>\<open>handleRemoteStroke\<close> or assigned by \<^verbatim>\<open>loadState\<close> is whatever the JSON holds, so the
  property is optional here.
\<close>

record stroke =
  s_id :: string
  s_color :: string
  s_width :: real
  s_points :: "point list"
  s_zIndex :: "int option"

record connector =
  c_id :: string
  c_connectorType :: string
  c_startX :: real
  c_startY :: real
  c_endX :: real
  c_endY :: real
  c_startAnchor :: "anchor option option"
  c_endAnchor :: "anchor option option"
  c_startPoint :: "point option"
  c_endPoint :: "point option"
  c_waypoints :: "point list option"
  c_controlPoint1 :: "point option option"
  c_controlPoint2 :: "point option option"
  c_label :: "string option"
  c_labelPosition :: "real option"
  c_zIndex :: "int option"

subsection \<open>Event payloads\<close>

text \<open>
  A payload that is merged with \<^verbatim>\<open>Object.assign\<close> or object spread lists, for every property,
  whether the JSON carries it (\<open>Some\<close>) or not (\<open>None\<close>).
\<close>

record object_patch =
  p_id :: string
  p_type :: "string option"
  p_x :: "real option"
  p_y :: "real option"
  p_width :: "real option"
  p_height :: "real option"
  p_zIndex :: "int option"
  p_color :: "string option"
  p_borderColor :: "string option"
  p_borderWidth :: "real option"
  p_text :: "string option"
  p_textAlign :: "string option"
  p_textOverflow :: "string option"
  p_fontSize :: "real option"
  p_children :: "string list option"
  p_connectorIds :: "string list option"

record connector_patch =
  cp_id :: string
  cp_connectorType :: "string option"
  cp_startX :: "real option"
  cp_startY :: "real option"
  cp_endX :: "real option"
  cp_endY :: "real option"
  cp_startAnchor :: "anchor option option"
  cp_endAnchor :: "anchor option option"
  cp_startPoint :: "point option"
  cp_endPoint :: "point option"
  cp_waypoints :: "point list option"
  cp_controlPoint1 :: "point option option"
  cp_controlPoint2 :: "point option option"
  cp_label :: "string option"
  cp_labelPosition :: "real option"
  cp_zIndex :: "int option"

record resize_payload =
  rz_id :: string
  rz_x :: real
  rz_y :: real
  rz_width :: real
  rz_height :: real

record style_payload =
  st_id :: string
  st_color :: "string option"
  st_borderColor :: "string option"
  st_borderWidth :: "real option"

record layer_payload =
  ly_id :: string
  ly_zIndex :: "int option"

text \<open>
  The platform event: \<^verbatim>\<open>collab_Event_Type__c\<close> together with the parsed
  \<^verbatim>\<open>collab_Payload__c\<close>, one constructor for each \<^verbatim>\<open>case\<close> of the dispatch in
  \<^verbatim>\<open>handlePlatformEvent\<close> and one for its \<^verbatim>\<open>default\<close>.
\<close>

datatype event =
    Object_add canvas_object
  | Object_move object_patch
  | Object_resize resize_payload
  | Object_style style_payload
  | Object_delete string
  | Draw_stroke stroke
  | Stroke_delete string
  | Connector_add connector
  | Connector_update connector_patch
  | Connector_delete string
  | Object_layer layer_payload
  | Connector_layer layer_payload
  | Group_create canvas_object
  | Group_ungroup string "string list"
  | User_join
  | User_leave
  | Unknown_event string

record message =
  collab_User_Id :: string
  collab_Canvas_Id :: string
  collab_Event :: event
  collab_User_Name :: string

subsection \<open>Undo and redo entries\<close>

text \<open>
  An entry is \<^verbatim>\<open>{type, data, timestamp}\<close>. The data recorded for a type on the undo stack
  and the data \<^verbatim>\<open>executeUndo\<close> returns for the redo stack have different shapes for the
  add, delete and group types, and the same shape for the types that \<^verbatim>\<open>executeRedo\<close> hands
  back to \<^verbatim>\<open>executeUndo\<close>; the latter are collected in \<open>restore_data\<close>.
\<close>

datatype restore_data =
    Move_data string real real
  | Resize_data string real real real real
  | Style_data string "string option" "string option" "string option" "string option" "real option"
  | Text_data string "string option"
  | Connector_update_data string connector_patch

datatype undo_action =
    U_object_add string
  | U_object_delete canvas_object
  | U_connector_add string
  | U_connector_delete connector
  | U_stroke_add string
  | U_stroke_delete stroke
  | U_group_create string
  | U_group_ungroup canvas_object
  | U_restore restore_data
  | U_unknown string

datatype redo_action =
    R_object_add canvas_object
  | R_object_delete string
  | R_connector_add connector
  | R_connector_delete string
  | R_stroke_add stroke
  | R_stroke_delete string
  | R_group_create canvas_object
  | R_group_ungroup string "string list option"
  | R_restore restore_data

record undo_entry =
  u_action :: undo_action
  u_timestamp :: int

record redo_entry =
  r_action :: redo_action
  r_timestamp :: int

subsection \<open>Calls to the outside and the component state\<close>

datatype apex_call =
    PublishEvent event
  | SaveCanvasState "canvas_object list" "stroke list" "connector list"
  | LoadCanvasState
  | UpdateCursor real real

record toast =
  t_title :: string
  t_message :: string
  t_variant :: string

text \<open>
  A reference to a scene entity kept in a selection or hover field is modelled by the value
  of the entity it points to; the functions below read only its \<^verbatim>\<open>id\<close>.
  \<open>calls\<close> logs each call to an Apex method, \<open>toasts\<close> each \<^verbatim>\<open>ShowToastEvent\<close> dispatched and
  \<open>consoleErrors\<close> each \<^verbatim>\<open>console.error\<close>, in order.
\<close>

record canvas_state =
  recordId :: "string option"
  stateLoadedForRecordId :: "string option"
  objects :: "canvas_object list"
  strokes :: "stroke list"
  connectors :: "connector list"
  selectedObject :: "canvas_object option"
  selectedConnector :: "connector option"
  hoveredStroke :: "stroke option"
  hoveredObject :: "canvas_object option"
  hoveredConnector :: "connector option"
  selectedObjects :: "canvas_object list"
  selectedConnectors :: "connector list"
  undoStack :: "undo_entry list"
  redoStack :: "redo_entry list"
  lastSentCursor :: point
  lastCursorSendTime :: int
  isLoading :: bool
  errorMessage :: string
  toasts :: "toast list"
  calls :: "apex_call list"
  consoleErrors :: "string list"

section \<open>Numbers\<close>

text \<open>
  A JavaScript number is an IEEE 754 double, and each arithmetic operator gives the double
  nearest to the exact result, a tie going to the even mantissa. \<open>ilog2 x\<close> is the integer
  part of the binary logarithm of \<open>\<bar>x\<bar>\<close> for \<open>x \<noteq> 0\<close>, \<open>ulp_exponent x\<close> the exponent of the
  last mantissa bit at \<open>x\<close> (53 bits, and no exponent below -1074), and \<open>to_double x\<close> the
  double nearest to the real \<open>x\<close>. A result of magnitude \<open>2 ^ 1024\<close> or more is \<^verbatim>\<open>Infinity\<close> in
  the code; this is left out, the coordinates and z-indices of a canvas being far below.
\<close>

definition ilog2 :: "real \<Rightarrow> int" where
  "ilog2 x = (if 1 \<le> \<bar>x\<bar> then bitlen \<lfloor>\<bar>x\<bar>\<rfloor> - 1 else - bitlen (\<lceil>1 / \<bar>x\<bar>\<rceil> - 1))"

definition ulp_exponent :: "real \<Rightarrow> int" where
  "ulp_exponent x = max (ilog2 x - 52) (- 1074)"

definition round_half_even :: "real \<Rightarrow> int" where
  "round_half_even y =
     (let f = \<lfloor>y\<rfloor>; d = y - of_int f
      in if d < 1/2 then f else if 1/2 < d then f + 1 else if even f then f else f + 1)"

definition to_double :: "real \<Rightarrow> real" where
  "to_double x =
     (if x = 0 then 0
      else of_int (round_half_even (x / 2 powi ulp_exponent x)) * 2 powi ulp_exponent x)"

text \<open>
  The operators \<^verbatim>\<open>+\<close>, \<^verbatim>\<open>-\<close>, \<^verbatim>\<open>*\<close> and \<^verbatim>\<open>/\<close> on numbers, and \<^verbatim>\<open>+\<close> on two numbers that are
  integers, as the z-indices are.
\<close>

definition num_add :: "real \<Rightarrow> real \<Rightarrow> real" where
  "num_add a b = to_double (a + b)"

definition num_sub :: "real \<Rightarrow> real \<Rightarrow> real" where
  "num_sub a b = to_double (a - b)"

definition num_mul :: "real \<Rightarrow> real \<Rightarrow> real" where
  "num_mul a b = to_double (a * b)"

definition num_div :: "real \<Rightarrow> real \<Rightarrow> real" where
  "num_div a b = to_double (a / b)"

definition int_add :: "int \<Rightarrow> int \<Rightarrow> int" where
  "int_add a b = \<lfloor>to_double (of_int a + of_int b)\<rfloor>"

section \<open>Array helpers\<close>

text \<open>
  \<^verbatim>\<open>arr.find(p)\<close> is \<^const>\<open>find\<close>, \<^verbatim>\<open>arr.some(p)\<close> is \<^const>\<open>list_ex\<close>, \<^verbatim>\<open>arr.filter(p)\<close> is
  \<^const>\<open>filter\<close>, \<^verbatim>\<open>arr.push(v)\<close> appends. An assignment to a property of the object returned by
  \<^verbatim>\<open>find\<close> changes the first element that satisfies the predicate, in place.
\<close>

text \<open>The value of a nullable property when it is neither absent nor \<^verbatim>\<open>null\<close>.\<close>

definition present :: "'a option option \<Rightarrow> 'a option" where
  "present v = (case v of Some (Some a) \<Rightarrow> Some a | _ \<Rightarrow> None)"

fun update_first :: "('a \<Rightarrow> bool) \<Rightarrow> ('a \<Rightarrow> 'a) \<Rightarrow> 'a list \<Rightarrow> 'a list" where
  "update_first P f [] = []"
| "update_first P f (x # xs) = (if P x then f x # xs else x # update_first P f xs)"

definition canvasId :: "canvas_state \<Rightarrow> string" where
  "canvasId s = (case recordId s of
                   None \<Rightarrow> ''default-canvas''
                 | Some r \<Rightarrow> if r = [] then ''default-canvas'' else r)"

definition showToast :: "string \<Rightarrow> string \<Rightarrow> string \<Rightarrow> canvas_state \<Rightarrow> canvas_state" where
  "showToast title msg variant s =
     s\<lparr>toasts := toasts s @ [\<lparr>t_title = title, t_message = msg, t_variant = variant\<rparr>]\<rparr>"

section \<open>Remote event handlers\<close>

text \<open>
  What \<^verbatim>\<open>Object.assign(target, payload)\<close> leaves in one property of the target: the carried
  value if the payload has the property, the current value otherwise.
\<close>

definition assigned :: "'a \<Rightarrow> 'a option \<Rightarrow> 'a" where
  "assigned current carried = (case carried of None \<Rightarrow> current | Some v \<Rightarrow> v)"

definition assigned_opt :: "'a option \<Rightarrow> 'a option \<Rightarrow> 'a option" where
  "assigned_opt current carried = (case carried of None \<Rightarrow> current | Some v \<Rightarrow> Some v)"

definition assign_object :: "canvas_object \<Rightarrow> object_patch \<Rightarrow> canvas_object" where
  "assign_object obj p =
     obj\<lparr>o_id := p_id p,
         o_type := assigned (o_type obj) (p_type p),
         o_x := assigned (o_x obj) (p_x p),
         o_y := assigned (o_y obj) (p_y p),
         o_width := assigned (o_width obj) (p_width p),
         o_height := assigned (o_height obj) (p_height p),
         o_zIndex := assigned_opt (o_zIndex obj) (p_zIndex p),
         o_color := assigned_opt (o_color obj) (p_color p),
         o_borderColor := assigned_opt (o_borderColor obj) (p_borderColor p),
         o_borderWidth := assigned_opt (o_borderWidth obj) (p_borderWidth p),
         o_text := assigned_opt (o_text obj) (p_text p),
         o_textAlign := assigned_opt (o_textAlign obj) (p_textAlign p),
         o_textOverflow := assigned_opt (o_textOverflow obj) (p_textOverflow p),
         o_fontSize := assigned_opt (o_fontSize obj) (p_fontSize p),
         o_children := assigned_opt (o_children obj) (p_children p),
         o_connectorIds := assigned_opt (o_connectorIds obj) (p_connectorIds p)\<rparr>"

definition assign_connector :: "connector \<Rightarrow> connector_patch \<Rightarrow> connector" where
  "assign_connector conn p =
     conn\<lparr>c_id := cp_id p,
          c_connectorType := assigned (c_connectorType conn) (cp_connectorType p),
          c_startX := assigned (c_startX conn) (cp_startX p),
          c_startY := assigned (c_startY conn) (cp_startY p),
          c_endX := assigned (c_endX conn) (cp_endX p),
          c_endY := assigned (c_endY conn) (cp_endY p),
          c_startAnchor := assigned_opt (c_startAnchor conn) (cp_startAnchor p),
          c_endAnchor := assigned_opt (c_endAnchor conn) (cp_endAnchor p),
          c_startPoint := assigned_opt (c_startPoint conn) (cp_startPoint p),
          c_endPoint := assigned_opt (c_endPoint conn) (cp_endPoint p),
          c_waypoints := assigned_opt (c_waypoints conn) (cp_waypoints p),
          c_controlPoint1 := assigned_opt (c_controlPoint1 conn) (cp_controlPoint1 p),
          c_controlPoint2 := assigned_opt (c_controlPoint2 conn) (cp_controlPoint2 p),
          c_label := assigned_opt (c_label conn) (cp_label p),
          c_labelPosition := assigned_opt (c_labelPosition conn) (cp_labelPosition p),
          c_zIndex := assigned_opt (c_zIndex conn) (cp_zIndex p)\<rparr>"

definition handleRemoteObjectAdd :: "canvas_object \<Rightarrow> canvas_state \<Rightarrow> canvas_state" where
  "handleRemoteObjectAdd payload s =
     (let exists = list_ex (\<lambda>ob. o_id ob = o_id payload) (objects s)
      in if \<not> exists then s\<lparr>objects := objects s @ [payload]\<rparr> else s)"

definition handleRemoteObjectMove :: "object_patch \<Rightarrow> canvas_state \<Rightarrow> canvas_state" where
  "handleRemoteObjectMove payload s =
     (case find (\<lambda>ob. o_id ob = p_id payload) (objects s) of
        None \<Rightarrow> s
      | Some obj \<Rightarrow>
          s\<lparr>objects := update_first (\<lambda>ob. o_id ob = p_id payload)
                          (\<lambda>ob. assign_object ob payload) (objects s)\<rparr>)"

definition handleRemoteObjectResize :: "resize_payload \<Rightarrow> canvas_state \<Rightarrow> canvas_state" where
  "handleRemoteObjectResize payload s =
     (case find (\<lambda>ob. o_id ob = rz_id payload) (objects s) of
        None \<Rightarrow> s
      | Some obj \<Rightarrow>
          s\<lparr>objects := update_first (\<lambda>ob. o_id ob = rz_id payload)
             (\<lambda>ob. ob\<lparr>o_x := rz_x payload, o_y := rz_y payload,
                     o_width := rz_width payload, o_height := rz_height payload\<rparr>) (objects s)\<rparr>)"

text \<open>
  \<^verbatim>\<open>if (payload.color)\<close> tests truthiness: a string counts when it is present and not empty;
  \<^verbatim>\<open>payload.borderWidth !== undefined\<close> tests presence only.
\<close>

definition truthy :: "string option \<Rightarrow> bool" where
  "truthy v = (case v of None \<Rightarrow> False | Some str \<Rightarrow> str \<noteq> [])"

definition handleRemoteObjectStyle :: "style_payload \<Rightarrow> canvas_state \<Rightarrow> canvas_state" where
  "handleRemoteObjectStyle payload s =
     (case find (\<lambda>ob. o_id ob = st_id payload) (objects s) of
        None \<Rightarrow> s
      | Some obj \<Rightarrow>
          s\<lparr>objects := update_first (\<lambda>ob. o_id ob = st_id payload)
             (\<lambda>ob. ob\<lparr>o_color := (if truthy (st_color payload) then st_color payload else o_color ob),
                     o_borderColor := (if truthy (st_borderColor payload)
                                       then st_borderColor payload else o_borderColor ob),
                     o_borderWidth := (if st_borderWidth payload \<noteq> None
                                       then st_borderWidth payload else o_borderWidth ob)\<rparr>)
             (objects s)\<rparr>)"

definition handleRemoteObjectDelete :: "string \<Rightarrow> canvas_state \<Rightarrow> canvas_state" where
  "handleRemoteObjectDelete payload_id s =
     s\<lparr>objects := filter (\<lambda>ob. o_id ob \<noteq> payload_id) (objects s)\<rparr>"

definition handleRemoteStroke :: "stroke \<Rightarrow> canvas_state \<Rightarrow> canvas_state" where
  "handleRemoteStroke payload s =
     (let exists = list_ex (\<lambda>st. s_id st = s_id payload) (strokes s)
      in if \<not> exists then s\<lparr>strokes := strokes s @ [payload]\<rparr> else s)"

definition handleRemoteStrokeDelete :: "string \<Rightarrow> canvas_state \<Rightarrow> canvas_state" where
  "handleRemoteStrokeDelete payload_id s =
     (let s1 = s\<lparr>strokes := filter (\<lambda>st. s_id st \<noteq> payload_id) (strokes s)\<rparr>
      in case hoveredStroke s1 of
           None \<Rightarrow> s1
         | Some h \<Rightarrow> if s_id h = payload_id then s1\<lparr>hoveredStroke := None\<rparr> else s1)"

definition handleRemoteConnectorAdd :: "connector \<Rightarrow> canvas_state \<Rightarrow> canvas_state" where
  "handleRemoteConnectorAdd payload s =
     (let exists = list_ex (\<lambda>c. c_id c = c_id payload) (connectors s)
      in if \<not> exists then s\<lparr>connectors := connectors s @ [payload]\<rparr> else s)"

definition handleRemoteConnectorDelete :: "string \<Rightarrow> canvas_state \<Rightarrow> canvas_state" where
  "handleRemoteConnectorDelete payload_id s =
     (let s1 = s\<lparr>connectors := filter (\<lambda>c. c_id c \<noteq> payload_id) (connectors s)\<rparr>
      in case selectedConnector s1 of
           None \<Rightarrow> s1
         | Some sel \<Rightarrow> if c_id sel = payload_id then s1\<lparr>selectedConnector := None\<rparr> else s1)"

text \<open>
  \<^verbatim>\<open>findIndex\<close> gives the first connector with the payload's id; that array slot is replaced
  by the spread of the old connector and the payload.
\<close>

definition handleRemoteConnectorUpdate :: "connector_patch \<Rightarrow> canvas_state \<Rightarrow> canvas_state" where
  "handleRemoteConnectorUpdate payload s =
     (case find (\<lambda>c. c_id c = cp_id payload) (connectors s) of
        None \<Rightarrow> s
      | Some old \<Rightarrow>
          (let merged = assign_connector old payload;
               s1 = s\<lparr>connectors := update_first (\<lambda>c. c_id c = cp_id payload)
                                        (\<lambda>c. merged) (connectors s)\<rparr>
           in case selectedConnector s1 of
                None \<Rightarrow> s1
              | Some sel \<Rightarrow> if c_id sel = cp_id payload
                            then s1\<lparr>selectedConnector := Some merged\<rparr> else s1))"

definition handleRemoteLayerChange :: "layer_payload \<Rightarrow> canvas_state \<Rightarrow> canvas_state" where
  "handleRemoteLayerChange payload s =
     (case find (\<lambda>ob. o_id ob = ly_id payload) (objects s) of
        None \<Rightarrow> s
      | Some obj \<Rightarrow>
          s\<lparr>objects := update_first (\<lambda>ob. o_id ob = ly_id payload)
                          (\<lambda>ob. ob\<lparr>o_zIndex := ly_zIndex payload\<rparr>) (objects s)\<rparr>)"

definition handleRemoteConnectorLayerChange :: "layer_payload \<Rightarrow> canvas_state \<Rightarrow> canvas_state" where
  "handleRemoteConnectorLayerChange payload s =
     (case find (\<lambda>c. c_id c = ly_id payload) (connectors s) of
        None \<Rightarrow> s
      | Some conn \<Rightarrow>
          s\<lparr>connectors := update_first (\<lambda>c. c_id c = ly_id payload)
                             (\<lambda>c. c\<lparr>c_zIndex := ly_zIndex payload\<rparr>) (connectors s)\<rparr>)"

definition handleRemoteGroupCreate :: "canvas_object \<Rightarrow> canvas_state \<Rightarrow> canvas_state" where
  "handleRemoteGroupCreate payload s =
     (if list_ex (\<lambda>ob. o_id ob = o_id payload) (objects s)
      then s\<lparr>objects := update_first (\<lambda>ob. o_id ob = o_id payload) (\<lambda>ob. payload) (objects s)\<rparr>
      else s\<lparr>objects := objects s @ [payload]\<rparr>)"

definition handleRemoteGroupUngroup :: "string \<Rightarrow> canvas_state \<Rightarrow> canvas_state" where
  "handleRemoteGroupUngroup groupId s =
     (let s1 = s\<lparr>objects := filter (\<lambda>ob. o_id ob \<noteq> groupId) (objects s)\<rparr>
      in case selectedObject s1 of
           None \<Rightarrow> s1
         | Some sel \<Rightarrow> if o_id sel = groupId then s1\<lparr>selectedObject := None\<rparr> else s1)"

text \<open>
  \<^verbatim>\<open>saveStateForNewUser\<close> calls \<^verbatim>\<open>saveCanvasState\<close> with the three arrays; \<open>ok\<close> tells whether
  the promise resolves. A rejection is written to the console and nothing else.
\<close>

definition saveStateForNewUser :: "bool \<Rightarrow> canvas_state \<Rightarrow> canvas_state" where
  "saveStateForNewUser ok s =
     (let s1 = s\<lparr>calls := calls s @ [SaveCanvasState (objects s) (strokes s) (connectors s)]\<rparr>
      in if ok then s1
         else s1\<lparr>consoleErrors := consoleErrors s1 @ [''Auto-save for new user failed:'']\<rparr>)"

text \<open>
  \<open>uid\<close> is the imported \<^verbatim>\<open>@salesforce/user/Id\<close>; \<open>ok\<close> is the outcome of the save that a
  \<^verbatim>\<open>user_join\<close> event triggers.
\<close>

fun dispatch :: "bool \<Rightarrow> string \<Rightarrow> event \<Rightarrow> canvas_state \<Rightarrow> canvas_state" where
  "dispatch ok userName (Object_add payload) s = handleRemoteObjectAdd payload s"
| "dispatch ok userName (Object_move payload) s = handleRemoteObjectMove payload s"
| "dispatch ok userName (Object_resize payload) s = handleRemoteObjectResize payload s"
| "dispatch ok userName (Object_style payload) s = handleRemoteObjectStyle payload s"
| "dispatch ok userName (Object_delete i) s = handleRemoteObjectDelete i s"
| "dispatch ok userName (Draw_stroke payload) s = handleRemoteStroke payload s"
| "dispatch ok userName (Stroke_delete i) s = handleRemoteStrokeDelete i s"
| "dispatch ok userName (Connector_add payload) s = handleRemoteConnectorAdd payload s"
| "dispatch ok userName (Connector_update payload) s = handleRemoteConnectorUpdate payload s"
| "dispatch ok userName (Connector_delete i) s = handleRemoteConnectorDelete i s"
| "dispatch ok userName (Object_layer payload) s = handleRemoteLayerChange payload s"
| "dispatch ok userName (Connector_layer payload) s = handleRemoteConnectorLayerChange payload s"
| "dispatch ok userName (Group_create payload) s = handleRemoteGroupCreate payload s"
| "dispatch ok userName (Group_ungroup groupId childIds) s = handleRemoteGroupUngroup groupId s"
| "dispatch ok userName User_join s =
     saveStateForNewUser ok
       (showToast ''User Joined'' (userName @ '' joined the canvas'') ''info'' s)"
| "dispatch ok userName User_leave s =
     showToast ''User Left'' (userName @ '' left the canvas'') ''info'' s"
| "dispatch ok userName (Unknown_event eventType) s = s"

definition handlePlatformEvent :: "string \<Rightarrow> bool \<Rightarrow> message \<Rightarrow> canvas_state \<Rightarrow> canvas_state" where
  "handlePlatformEvent uid ok msg s =
     (if collab_User_Id msg = uid then s
      else if collab_Canvas_Id msg \<noteq> canvasId s then s
      else dispatch ok (collab_User_Name msg) (collab_Event msg) s)"

section \<open>Initial component state\<close>

text \<open>The field initialisers of the class; \<open>rid\<close> is the \<^verbatim>\<open>@api recordId\<close>.\<close>

definition initial_state :: "string option \<Rightarrow> canvas_state" where
  "initial_state rid =
     \<lparr>recordId = rid, stateLoadedForRecordId = None,
      objects = [], strokes = [], connectors = [],
      selectedObject = None, selectedConnector = None,
      hoveredStroke = None, hoveredObject = None, hoveredConnector = None,
      selectedObjects = [], selectedConnectors = [],
      undoStack = [], redoStack = [],
      lastSentCursor = \<lparr>pt_x = 0, pt_y = 0\<rparr>, lastCursorSendTime = 0,
      isLoading = True, errorMessage = [],
      toasts = [], calls = [], consoleErrors = []\<rparr>"

definition hasError :: "canvas_state \<Rightarrow> bool" where
  "hasError s = (errorMessage s \<noteq> [])"

definition isReady :: "canvas_state \<Rightarrow> bool" where
  "isReady s = (\<not> isLoading s \<and> \<not> hasError s)"

section \<open>Z-order\<close>

text \<open>
  \<^verbatim>\<open>o.zIndex || 0\<close> reads a missing z-index as 0. \<^verbatim>\<open>Math.max(...allZs)\<close> over a non-empty
  array is the fold of \<^const>\<open>max\<close> over it, and the \<^verbatim>\<open>+ 1\<close> after it is an addition of doubles.
\<close>

definition zOr0 :: "int option \<Rightarrow> int" where
  "zOr0 z = (case z of None \<Rightarrow> 0 | Some v \<Rightarrow> v)"

definition getNextZIndex :: "canvas_state \<Rightarrow> int" where
  "getNextZIndex s =
     (let objectZs = map (\<lambda>ob. zOr0 (o_zIndex ob)) (objects s);
          connectorZs = map (\<lambda>c. zOr0 (c_zIndex c)) (connectors s);
          allZs = objectZs @ connectorZs
      in case allZs of
           [] \<Rightarrow> 1
         | z # zs \<Rightarrow> int_add (fold max zs z) 1)"

section \<open>Anchor resolution\<close>

text \<open>
  The literals \<^verbatim>\<open>0.25\<close>, \<^verbatim>\<open>0.5\<close> and \<^verbatim>\<open>0.75\<close> are doubles; \<^verbatim>\<open>0.6\<close> is not and stands for
  the double nearest to it.
\<close>

definition getAnchorPoint :: "canvas_object \<Rightarrow> string \<Rightarrow> point" where
  "getAnchorPoint obj pos =
     (if o_type obj = ''diamond'' then
        (let cx = num_add (o_x obj) (num_div (o_width obj) 2);
             cy = num_add (o_y obj) (num_div (o_height obj) 2)
         in if pos = ''top'' then \<lparr>pt_x = cx, pt_y = o_y obj\<rparr>
            else if pos = ''bottom'' then \<lparr>pt_x = cx, pt_y = num_add (o_y obj) (o_height obj)\<rparr>
            else if pos = ''left'' then \<lparr>pt_x = o_x obj, pt_y = cy\<rparr>
            else if pos = ''right'' then \<lparr>pt_x = num_add (o_x obj) (o_width obj), pt_y = cy\<rparr>
            else \<lparr>pt_x = cx, pt_y = cy\<rparr>)
      else if o_type obj = ''triangle'' then
        (if pos = ''top'' then
           \<lparr>pt_x = num_add (o_x obj) (num_div (o_width obj) 2), pt_y = o_y obj\<rparr>
         else if pos = ''bottom'' then
           \<lparr>pt_x = num_add (o_x obj) (num_div (o_width obj) 2),
            pt_y = num_add (o_y obj) (o_height obj)\<rparr>
         else if pos = ''left'' then
           \<lparr>pt_x = num_add (o_x obj) (num_mul (o_width obj) (1/4)),
            pt_y = num_add (o_y obj) (num_mul (o_height obj) (1/2))\<rparr>
         else if pos = ''right'' then
           \<lparr>pt_x = num_add (o_x obj) (num_mul (o_width obj) (3/4)),
            pt_y = num_add (o_y obj) (num_mul (o_height obj) (1/2))\<rparr>
         else
           \<lparr>pt_x = num_add (o_x obj) (num_div (o_width obj) 2),
            pt_y = num_add (o_y obj) (num_mul (o_height obj) (to_double (6/10)))\<rparr>)
      else
        (if pos = ''top'' then
           \<lparr>pt_x = num_add (o_x obj) (num_div (o_width obj) 2), pt_y = o_y obj\<rparr>
         else if pos = ''bottom'' then
           \<lparr>pt_x = num_add (o_x obj) (num_div (o_width obj) 2),
            pt_y = num_add (o_y obj) (o_height obj)\<rparr>
         else if pos = ''left'' then
           \<lparr>pt_x = o_x obj, pt_y = num_add (o_y obj) (num_div (o_height obj) 2)\<rparr>
         else if pos = ''right'' then
           \<lparr>pt_x = num_add (o_x obj) (o_width obj),
            pt_y = num_add (o_y obj) (num_div (o_height obj) 2)\<rparr>
         else
           \<lparr>pt_x = num_add (o_x obj) (num_div (o_width obj) 2),
            pt_y = num_add (o_y obj) (num_div (o_height obj) 2)\<rparr>))"

text \<open>
  \<^verbatim>\<open>anchor && anchor.objectId\<close> holds for an anchor object whose \<^verbatim>\<open>objectId\<close> is a non-empty
  string.
\<close>

definition resolveConnectorPoint :: "canvas_state \<Rightarrow> connector \<Rightarrow> string \<Rightarrow> point" where
  "resolveConnectorPoint s conn pointType =
     (let anchor = (if pointType = ''start'' then c_startAnchor conn else c_endAnchor conn);
          x = (if pointType = ''start'' then c_startX conn else c_endX conn);
          y = (if pointType = ''start'' then c_startY conn else c_endY conn)
      in case present anchor of
           None \<Rightarrow> \<lparr>pt_x = x, pt_y = y\<rparr>
         | Some a \<Rightarrow>
             if objectId a \<noteq> [] then
               (case find (\<lambda>ob. o_id ob = objectId a) (objects s) of
                  Some obj \<Rightarrow> getAnchorPoint obj (position a)
                | None \<Rightarrow> \<lparr>pt_x = x, pt_y = y\<rparr>)
             else \<lparr>pt_x = x, pt_y = y\<rparr>)"

section \<open>Moving a group\<close>

definition shift_point :: "real \<Rightarrow> real \<Rightarrow> point \<Rightarrow> point" where
  "shift_point dx dy p = p\<lparr>pt_x := num_add (pt_x p) dx, pt_y := num_add (pt_y p) dy\<rparr>"

text \<open>
  The body of the connector loop of \<^verbatim>\<open>moveGroupChildren\<close> for one connector that was found:
  \<^verbatim>\<open>startPoint\<close> and \<^verbatim>\<open>endPoint\<close> move when present and the matching anchor is falsy, the
  waypoints and the control points move when present.
\<close>

definition move_connector :: "real \<Rightarrow> real \<Rightarrow> connector \<Rightarrow> connector" where
  "move_connector dx dy conn =
     conn\<lparr>c_startPoint := (if present (c_startAnchor conn) = None
                            then map_option (shift_point dx dy) (c_startPoint conn)
                            else c_startPoint conn),
          c_endPoint := (if present (c_endAnchor conn) = None
                          then map_option (shift_point dx dy) (c_endPoint conn)
                          else c_endPoint conn),
          c_waypoints := map_option (map (shift_point dx dy)) (c_waypoints conn),
          c_controlPoint1 := map_option (map_option (shift_point dx dy)) (c_controlPoint1 conn),
          c_controlPoint2 := map_option (map_option (shift_point dx dy)) (c_controlPoint2 conn)\<rparr>"

definition list_or_empty :: "'a list option \<Rightarrow> 'a list" where
  "list_or_empty v = (case v of None \<Rightarrow> [] | Some xs \<Rightarrow> xs)"

definition moveGroupChildren :: "canvas_object \<Rightarrow> real \<Rightarrow> real \<Rightarrow> canvas_state \<Rightarrow> canvas_state" where
  "moveGroupChildren grp dx dy s =
     (let objs = fold (\<lambda>childId. update_first (\<lambda>ob. o_id ob = childId)
                                      (\<lambda>ob. ob\<lparr>o_x := num_add (o_x ob) dx,
                                             o_y := num_add (o_y ob) dy\<rparr>))
                      (list_or_empty (o_children grp)) (objects s);
          conns = fold (\<lambda>connectorId. update_first (\<lambda>c. c_id c = connectorId)
                                           (move_connector dx dy))
                       (list_or_empty (o_connectorIds grp)) (connectors s)
      in s\<lparr>objects := objs, connectors := conns\<rparr>)"

section \<open>Cursor presence\<close>

definition CURSOR_UPDATE_THROTTLE :: int where
  "CURSOR_UPDATE_THROTTLE = 50"

definition DELTA_THRESHOLD :: real where
  "DELTA_THRESHOLD = 10"

text \<open>
  \<^verbatim>\<open>sendCursorUpdate\<close> is an \<^verbatim>\<open>async\<close> function that \<^verbatim>\<open>handleMouseMove\<close> calls without waiting for
  it. Its first part runs with the pointer move: it reads the clock (\<open>now\<close> is \<^verbatim>\<open>Date.now()\<close>),
  tests the gate and, if the gate is open, calls \<^verbatim>\<open>updateCursor\<close>; the call suspended at the
  \<^verbatim>\<open>await\<close> keeps \<open>x\<close>, \<open>y\<close> and \<open>now\<close>. Its second part runs when that call settles, which may
  be after any number of further pointer moves: a resolved call assigns \<^verbatim>\<open>lastSentCursor\<close> and
  \<^verbatim>\<open>lastCursorSendTime\<close>, a rejected one assigns nothing. The clock values are integers below
  \<open>2 ^ 53\<close>, on which the subtraction of doubles is exact.
\<close>

record cursor_call =
  cc_x :: real
  cc_y :: real
  cc_now :: int

definition sendCursorUpdate :: "int \<Rightarrow> real \<Rightarrow> real \<Rightarrow> canvas_state \<Rightarrow> canvas_state \<times> cursor_call option" where
  "sendCursorUpdate now x y s =
     (let dx = \<bar>num_sub x (pt_x (lastSentCursor s))\<bar>;
          dy = \<bar>num_sub y (pt_y (lastSentCursor s))\<bar>
      in if (dx > DELTA_THRESHOLD \<or> dy > DELTA_THRESHOLD) \<and>
            now - lastCursorSendTime s > CURSOR_UPDATE_THROTTLE
         then (s\<lparr>calls := calls s @ [UpdateCursor x y]\<rparr>,
               Some \<lparr>cc_x = x, cc_y = y, cc_now = now\<rparr>)
         else (s, None))"

definition sendCursorUpdate_settled :: "cursor_call \<Rightarrow> bool \<Rightarrow> canvas_state \<Rightarrow> canvas_state" where
  "sendCursorUpdate_settled c ok s =
     (if ok then s\<lparr>lastSentCursor := \<lparr>pt_x = cc_x c, pt_y = cc_y c\<rparr>,
                    lastCursorSendTime := cc_now c\<rparr>
      else s)"

text \<open>
  The component together with the calls of \<^verbatim>\<open>updateCursor\<close> that have not settled yet, oldest
  first. A step is a pointer move at \<open>(x, y)\<close> at time \<open>now\<close> (outside panning, during which
  \<^verbatim>\<open>handleMouseMove\<close> returns before it sends), or the settling of the \<open>k\<close>-th pending call,
  resolved or rejected.
\<close>

datatype pointer_event = Mouse_move int real real | Cursor_settles nat bool

fun pointer_step :: "pointer_event \<Rightarrow> canvas_state \<times> cursor_call list \<Rightarrow> canvas_state \<times> cursor_call list" where
  "pointer_step (Mouse_move now x y) (s, pending) =
     (case sendCursorUpdate now x y s of
        (s', None) \<Rightarrow> (s', pending)
      | (s', Some c) \<Rightarrow> (s', pending @ [c]))"
| "pointer_step (Cursor_settles k ok) (s, pending) =
     (if k < length pending
      then (sendCursorUpdate_settled (pending ! k) ok s, take k pending @ drop (Suc k) pending)
      else (s, pending))"

definition pointer_run :: "pointer_event list \<Rightarrow> canvas_state \<times> cursor_call list \<Rightarrow> canvas_state \<times> cursor_call list" where
  "pointer_run evs st = fold pointer_step evs st"

definition cursor_sends :: "canvas_state \<Rightarrow> apex_call list" where
  "cursor_sends s = filter (\<lambda>c. case c of UpdateCursor x y \<Rightarrow> True | _ \<Rightarrow> False) (calls s)"

section \<open>Persistence\<close>

text \<open>
  \<^verbatim>\<open>handleSave\<close> and \<^verbatim>\<open>loadState\<close> are \<^verbatim>\<open>async\<close>; each is taken from its call to the settling
  of the Apex call it awaits, with no other handler running in between. \<open>ok\<close> tells whether
  the awaited \<^verbatim>\<open>saveCanvasState\<close> resolves.
\<close>

definition handleSave :: "bool \<Rightarrow> canvas_state \<Rightarrow> canvas_state" where
  "handleSave ok s =
     (let s1 = s\<lparr>calls := calls s @ [SaveCanvasState (objects s) (strokes s) (connectors s)]\<rparr>
      in if ok then showToast ''Success'' ''Canvas saved successfully'' ''success'' s1
         else showToast ''Error'' ''Failed to save canvas'' ''error''
                (s1\<lparr>consoleErrors := consoleErrors s1 @ [''Save error:'', ''Error body:'']\<rparr>))"

text \<open>
  What the awaited \<^verbatim>\<open>loadCanvasState\<close> and the \<^verbatim>\<open>JSON.parse\<close> after it give: a rejection, a
  parse error, or a state object with each of its three arrays present or not.
\<close>

datatype load_result =
    Load_rejected
  | Load_unparsable
  | Loaded "canvas_object list option" "stroke list option" "connector list option"

definition loadState :: "load_result \<Rightarrow> canvas_state \<Rightarrow> canvas_state" where
  "loadState res s =
     (let s1 = s\<lparr>stateLoadedForRecordId := recordId s, calls := calls s @ [LoadCanvasState]\<rparr>
      in case res of
           Loaded objs strks conns \<Rightarrow>
             (let s2 = (case objs of None \<Rightarrow> s1 | Some v \<Rightarrow> s1\<lparr>objects := v\<rparr>);
                  s3 = (case strks of None \<Rightarrow> s2 | Some v \<Rightarrow> s2\<lparr>strokes := v\<rparr>)
              in case conns of None \<Rightarrow> s3 | Some v \<Rightarrow> s3\<lparr>connectors := v\<rparr>)
         | _ \<Rightarrow> s1\<lparr>consoleErrors := consoleErrors s1 @ [''Failed to load state:'', ''Error body:'']\<rparr>)"

section \<open>Publishing\<close>

text \<open>
  Each \<^verbatim>\<open>publish...\<close> method builds its payload when it is called and hands it to
  \<^verbatim>\<open>publishEvent\<close>; a rejection is only logged. The payload of \<^verbatim>\<open>publishObjectMove\<close> is
  \<^verbatim>\<open>{id, x, y}\<close>, that of \<^verbatim>\<open>publishObjectUpdate\<close> and \<^verbatim>\<open>publishConnectorUpdate\<close> the whole object.
\<close>

definition publish :: "event \<Rightarrow> canvas_state \<Rightarrow> canvas_state" where
  "publish e s = s\<lparr>calls := calls s @ [PublishEvent e]\<rparr>"

definition move_patch :: "canvas_object \<Rightarrow> object_patch" where
  "move_patch obj =
     \<lparr>p_id = o_id obj, p_type = None, p_x = Some (o_x obj), p_y = Some (o_y obj),
      p_width = None, p_height = None, p_zIndex = None, p_color = None, p_borderColor = None,
      p_borderWidth = None, p_text = None, p_textAlign = None, p_textOverflow = None,
      p_fontSize = None, p_children = None, p_connectorIds = None\<rparr>"

definition object_as_patch :: "canvas_object \<Rightarrow> object_patch" where
  "object_as_patch obj =
     \<lparr>p_id = o_id obj, p_type = Some (o_type obj), p_x = Some (o_x obj), p_y = Some (o_y obj),
      p_width = Some (o_width obj), p_height = Some (o_height obj), p_zIndex = o_zIndex obj,
      p_color = o_color obj, p_borderColor = o_borderColor obj,
      p_borderWidth = o_borderWidth obj, p_text = o_text obj, p_textAlign = o_textAlign obj,
      p_textOverflow = o_textOverflow obj, p_fontSize = o_fontSize obj,
      p_children = o_children obj, p_connectorIds = o_connectorIds obj\<rparr>"

definition connector_as_patch :: "connector \<Rightarrow> connector_patch" where
  "connector_as_patch c =
     \<lparr>cp_id = c_id c, cp_connectorType = Some (c_connectorType c),
      cp_startX = Some (c_startX c), cp_startY = Some (c_startY c),
      cp_endX = Some (c_endX c), cp_endY = Some (c_endY c),
      cp_startAnchor = c_startAnchor c, cp_endAnchor = c_endAnchor c,
      cp_startPoint = c_startPoint c, cp_endPoint = c_endPoint c,
      cp_waypoints = c_waypoints c,
      cp_controlPoint1 = c_controlPoint1 c, cp_controlPoint2 = c_controlPoint2 c,
      cp_label = c_label c, cp_labelPosition = c_labelPosition c, cp_zIndex = c_zIndex c\<rparr>"

definition publishObjectAdd :: "canvas_object \<Rightarrow> canvas_state \<Rightarrow> canvas_state" where
  "publishObjectAdd obj = publish (Object_add obj)"

definition publishObjectMove :: "canvas_object \<Rightarrow> canvas_state \<Rightarrow> canvas_state" where
  "publishObjectMove obj = publish (Object_move (move_patch obj))"

definition publishObjectUpdate :: "canvas_object \<Rightarrow> canvas_state \<Rightarrow> canvas_state" where
  "publishObjectUpdate obj = publish (Object_move (object_as_patch obj))"

definition publishObjectResize :: "canvas_object \<Rightarrow> canvas_state \<Rightarrow> canvas_state" where
  "publishObjectResize obj =
     publish (Object_resize \<lparr>rz_id = o_id obj, rz_x = o_x obj, rz_y = o_y obj,
                             rz_width = o_width obj, rz_height = o_height obj\<rparr>)"

definition publishObjectStyle :: "canvas_object \<Rightarrow> canvas_state \<Rightarrow> canvas_state" where
  "publishObjectStyle obj =
     publish (Object_style \<lparr>st_id = o_id obj, st_color = o_color obj,
                            st_borderColor = o_borderColor obj,
                            st_borderWidth = o_borderWidth obj\<rparr>)"

definition publishObjectDelete :: "string \<Rightarrow> canvas_state \<Rightarrow> canvas_state" where
  "publishObjectDelete i = publish (Object_delete i)"

definition publishStroke :: "stroke \<Rightarrow> canvas_state \<Rightarrow> canvas_state" where
  "publishStroke st = publish (Draw_stroke st)"

definition publishStrokeDelete :: "string \<Rightarrow> canvas_state \<Rightarrow> canvas_state" where
  "publishStrokeDelete i = publish (Stroke_delete i)"

definition publishConnectorAdd :: "connector \<Rightarrow> canvas_state \<Rightarrow> canvas_state" where
  "publishConnectorAdd c = publish (Connector_add c)"

definition publishConnectorDelete :: "string \<Rightarrow> canvas_state \<Rightarrow> canvas_state" where
  "publishConnectorDelete i = publish (Connector_delete i)"

definition publishConnectorUpdate :: "connector \<Rightarrow> canvas_state \<Rightarrow> canvas_state" where
  "publishConnectorUpdate c = publish (Connector_update (connector_as_patch c))"

definition publishGroupCreate :: "canvas_object \<Rightarrow> canvas_state \<Rightarrow> canvas_state" where
  "publishGroupCreate g = publish (Group_create g)"

definition publishGroupUngroup :: "string \<Rightarrow> string list \<Rightarrow> canvas_state \<Rightarrow> canvas_state" where
  "publishGroupUngroup groupId childIds = publish (Group_ungroup groupId childIds)"

section \<open>Initialisation\<close>

text \<open>
  \<^verbatim>\<open>announceJoin\<close> publishes \<^verbatim>\<open>user_join\<close>; a rejection is logged. (After a resolved call it
  sets a timer that calls \<^verbatim>\<open>loadState\<close> again one second later, a step of its own.)
\<close>

definition announceJoin :: "bool \<Rightarrow> canvas_state \<Rightarrow> canvas_state" where
  "announceJoin ok s =
     (let s1 = publish User_join s
      in if ok then s1
         else s1\<lparr>consoleErrors := consoleErrors s1 @ [''Failed to announce join:'']\<rparr>)"

text \<open>
  \<^verbatim>\<open>initializeCanvas\<close> sets up the canvas element, awaits \<^verbatim>\<open>loadState\<close>, announces the join,
  starts the render loop and clears \<^verbatim>\<open>isLoading\<close>, all inside a \<^verbatim>\<open>try\<close> whose \<^verbatim>\<open>catch\<close> sets
  \<^verbatim>\<open>errorMessage\<close>. \<open>thrown\<close> is the message of an error thrown by the set-up before the load,
  if there is one. \<^verbatim>\<open>loadState\<close> catches its own failures, so a failed load does not reach the
  \<^verbatim>\<open>catch\<close> of \<^verbatim>\<open>initializeCanvas\<close>. The function is taken from its call to its end, with no
  other handler running in between.
\<close>

definition initializeCanvas :: "string option \<Rightarrow> load_result \<Rightarrow> bool \<Rightarrow> canvas_state \<Rightarrow> canvas_state" where
  "initializeCanvas thrown res joinOk s =
     (case thrown of
        Some m \<Rightarrow>
          s\<lparr>consoleErrors := consoleErrors s @ [''Canvas initialization error:''],
            errorMessage := ''Failed to initialize canvas: '' @ m,
            isLoading := False\<rparr>
      | None \<Rightarrow> (announceJoin joinOk (loadState res s))\<lparr>isLoading := False\<rparr>)"

section \<open>Undo and redo\<close>

definition recordAction :: "undo_action \<Rightarrow> int \<Rightarrow> canvas_state \<Rightarrow> canvas_state" where
  "recordAction a now s =
     (let pushed = undoStack s @ [\<lparr>u_action = a, u_timestamp = now\<rparr>];
          limited = (if length pushed > 5 then tl pushed else pushed)
      in s\<lparr>undoStack := limited, redoStack := []\<rparr>)"

text \<open>
  The branches \<^verbatim>\<open>object_move\<close>, \<^verbatim>\<open>object_resize\<close>, \<^verbatim>\<open>object_style\<close>, \<^verbatim>\<open>object_text\<close> and
  \<^verbatim>\<open>connector_update\<close> of \<^verbatim>\<open>executeUndo\<close>, which \<^verbatim>\<open>executeRedo\<close> calls for the same types:
  each restores the recorded values on the first entity with the recorded id and returns the
  values it found there, or returns \<^verbatim>\<open>null\<close> when there is no such entity. The style branch
  assigns a recorded value only if it is not \<^verbatim>\<open>undefined\<close>.
\<close>

fun restore :: "restore_data \<Rightarrow> canvas_state \<Rightarrow> canvas_state \<times> restore_data option" where
  "restore (Move_data i previousX previousY) s =
     (case find (\<lambda>ob. o_id ob = i) (objects s) of
        None \<Rightarrow> (s, None)
      | Some obj \<Rightarrow>
          (let upd = (\<lambda>ob. ob\<lparr>o_x := previousX, o_y := previousY\<rparr>);
               s1 = s\<lparr>objects := update_first (\<lambda>ob. o_id ob = i) upd (objects s)\<rparr>
           in (publishObjectMove (upd obj) s1,
               Some (Move_data (o_id obj) (o_x obj) (o_y obj)))))"
| "restore (Resize_data i previousX previousY previousWidth previousHeight) s =
     (case find (\<lambda>ob. o_id ob = i) (objects s) of
        None \<Rightarrow> (s, None)
      | Some obj \<Rightarrow>
          (let upd = (\<lambda>ob. ob\<lparr>o_x := previousX, o_y := previousY,
                               o_width := previousWidth, o_height := previousHeight\<rparr>);
               s1 = s\<lparr>objects := update_first (\<lambda>ob. o_id ob = i) upd (objects s)\<rparr>
           in (publishObjectResize (upd obj) s1,
               Some (Resize_data (o_id obj) (o_x obj) (o_y obj) (o_width obj) (o_height obj)))))"
| "restore (Style_data i previousColor previousBorderColor previousTextAlign
                       previousTextOverflow previousFontSize) s =
     (case find (\<lambda>ob. o_id ob = i) (objects s) of
        None \<Rightarrow> (s, None)
      | Some obj \<Rightarrow>
          (let upd = (\<lambda>ob. ob\<lparr>
                 o_color := assigned_opt (o_color ob) previousColor,
                 o_borderColor := assigned_opt (o_borderColor ob) previousBorderColor,
                 o_textAlign := assigned_opt (o_textAlign ob) previousTextAlign,
                 o_textOverflow := assigned_opt (o_textOverflow ob) previousTextOverflow,
                 o_fontSize := assigned_opt (o_fontSize ob) previousFontSize\<rparr>);
               s1 = s\<lparr>objects := update_first (\<lambda>ob. o_id ob = i) upd (objects s)\<rparr>
           in (publishObjectStyle (upd obj) s1,
               Some (Style_data (o_id obj) (o_color obj) (o_borderColor obj) (o_textAlign obj)
                                (o_textOverflow obj) (o_fontSize obj)))))"
| "restore (Text_data i previousText) s =
     (case find (\<lambda>ob. o_id ob = i) (objects s) of
        None \<Rightarrow> (s, None)
      | Some obj \<Rightarrow>
          (let upd = (\<lambda>ob. ob\<lparr>o_text := previousText\<rparr>);
               s1 = s\<lparr>objects := update_first (\<lambda>ob. o_id ob = i) upd (objects s)\<rparr>
           in (publishObjectUpdate (upd obj) s1, Some (Text_data (o_id obj) (o_text obj)))))"
| "restore (Connector_update_data i previousState) s =
     (case find (\<lambda>c. c_id c = i) (connectors s) of
        None \<Rightarrow> (s, None)
      | Some conn \<Rightarrow>
          (let upd = (\<lambda>c. assign_connector c previousState);
               s1 = s\<lparr>connectors := update_first (\<lambda>c. c_id c = i) upd (connectors s)\<rparr>
           in (publishConnectorUpdate (upd conn) s1,
               Some (Connector_update_data (c_id (upd conn)) (connector_as_patch conn)))))"

text \<open>\<^verbatim>\<open>if (this.selectedObject?.id === id) this.selectedObject = null\<close>, and the same for connectors.\<close>

definition deselectObject :: "string \<Rightarrow> canvas_state \<Rightarrow> canvas_state" where
  "deselectObject i s =
     (case selectedObject s of
        None \<Rightarrow> s
      | Some sel \<Rightarrow> if o_id sel = i then s\<lparr>selectedObject := None\<rparr> else s)"

definition deselectConnector :: "string \<Rightarrow> canvas_state \<Rightarrow> canvas_state" where
  "deselectConnector i s =
     (case selectedConnector s of
        None \<Rightarrow> s
      | Some sel \<Rightarrow> if c_id sel = i then s\<lparr>selectedConnector := None\<rparr> else s)"

fun executeUndo :: "undo_action \<Rightarrow> canvas_state \<Rightarrow> canvas_state \<times> redo_action option" where
  "executeUndo (U_object_add i) s =
     (case find (\<lambda>ob. o_id ob = i) (objects s) of
        None \<Rightarrow> (s, None)
      | Some obj \<Rightarrow>
          (deselectObject i
             (publishObjectDelete i (s\<lparr>objects := filter (\<lambda>ob. o_id ob \<noteq> i) (objects s)\<rparr>)),
           Some (R_object_add obj)))"
| "executeUndo (U_object_delete obj) s =
     (publishObjectAdd obj (s\<lparr>objects := objects s @ [obj]\<rparr>), Some (R_object_delete (o_id obj)))"
| "executeUndo (U_restore d) s =
     (case restore d s of (s1, r) \<Rightarrow> (s1, map_option R_restore r))"
| "executeUndo (U_connector_add i) s =
     (case find (\<lambda>c. c_id c = i) (connectors s) of
        None \<Rightarrow> (s, None)
      | Some conn \<Rightarrow>
          (deselectConnector i
             (publishConnectorDelete i
                (s\<lparr>connectors := filter (\<lambda>c. c_id c \<noteq> i) (connectors s)\<rparr>)),
           Some (R_connector_add conn)))"
| "executeUndo (U_connector_delete conn) s =
     (publishConnectorAdd conn (s\<lparr>connectors := connectors s @ [conn]\<rparr>),
      Some (R_connector_delete (c_id conn)))"
| "executeUndo (U_stroke_add i) s =
     (case find (\<lambda>st. s_id st = i) (strokes s) of
        None \<Rightarrow> (s, None)
      | Some strk \<Rightarrow>
          (publishStrokeDelete i (s\<lparr>strokes := filter (\<lambda>st. s_id st \<noteq> i) (strokes s)\<rparr>),
           Some (R_stroke_add strk)))"
| "executeUndo (U_stroke_delete strk) s =
     (publishStroke strk (s\<lparr>strokes := strokes s @ [strk]\<rparr>), Some (R_stroke_delete (s_id strk)))"
| "executeUndo (U_group_create groupId) s =
     (case find (\<lambda>ob. o_id ob = groupId) (objects s) of
        None \<Rightarrow> (s, None)
      | Some grp \<Rightarrow>
          (let childIds = list_or_empty (o_children grp)
           in (deselectObject (o_id grp)
                 (publishGroupUngroup (o_id grp) childIds
                    (s\<lparr>objects := filter (\<lambda>ob. o_id ob \<noteq> o_id grp) (objects s)\<rparr>)),
               Some (R_group_create grp))))"
| "executeUndo (U_group_ungroup grp) s =
     (publishGroupCreate grp (s\<lparr>objects := objects s @ [grp]\<rparr>),
      Some (R_group_ungroup (o_id grp) (o_children grp)))"
| "executeUndo (U_unknown ty) s = (s, None)"

fun executeRedo :: "redo_action \<Rightarrow> canvas_state \<Rightarrow> canvas_state \<times> undo_action option" where
  "executeRedo (R_object_add obj) s =
     (publishObjectAdd obj (s\<lparr>objects := objects s @ [obj]\<rparr>), Some (U_object_add (o_id obj)))"
| "executeRedo (R_object_delete i) s =
     (case find (\<lambda>ob. o_id ob = i) (objects s) of
        None \<Rightarrow> (s, None)
      | Some obj \<Rightarrow>
          (publishObjectDelete i (s\<lparr>objects := filter (\<lambda>ob. o_id ob \<noteq> i) (objects s)\<rparr>),
           Some (U_object_delete obj)))"
| "executeRedo (R_restore d) s =
     (case restore d s of (s1, r) \<Rightarrow> (s1, map_option U_restore r))"
| "executeRedo (R_connector_add conn) s =
     (publishConnectorAdd conn (s\<lparr>connectors := connectors s @ [conn]\<rparr>),
      Some (U_connector_add (c_id conn)))"
| "executeRedo (R_connector_delete i) s =
     (case find (\<lambda>c. c_id c = i) (connectors s) of
        None \<Rightarrow> (s, None)
      | Some conn \<Rightarrow>
          (publishConnectorDelete i
             (s\<lparr>connectors := filter (\<lambda>c. c_id c \<noteq> i) (connectors s)\<rparr>),
           Some (U_connector_delete conn)))"
| "executeRedo (R_stroke_add strk) s =
     (publishStroke strk (s\<lparr>strokes := strokes s @ [strk]\<rparr>), Some (U_stroke_add (s_id strk)))"
| "executeRedo (R_stroke_delete i) s =
     (case find (\<lambda>st. s_id st = i) (strokes s) of
        None \<Rightarrow> (s, None)
      | Some strk \<Rightarrow>
          (publishStrokeDelete i (s\<lparr>strokes := filter (\<lambda>st. s_id st \<noteq> i) (strokes s)\<rparr>),
           Some (U_stroke_delete strk)))"
| "executeRedo (R_group_create grp) s =
     (publishGroupCreate grp (s\<lparr>objects := objects s @ [grp]\<rparr>),
      Some (U_group_create (o_id grp)))"
| "executeRedo (R_group_ungroup groupId cs) s =
     (case find (\<lambda>ob. o_id ob = groupId) (objects s) of
        None \<Rightarrow> (s, None)
      | Some grp \<Rightarrow>
          (let childIds = list_or_empty (o_children grp)
           in (publishGroupUngroup groupId childIds
                 (s\<lparr>objects := filter (\<lambda>ob. o_id ob \<noteq> groupId) (objects s)\<rparr>),
               Some (U_group_ungroup grp))))"

text \<open>
  \<^verbatim>\<open>pop\<close> takes the last entry, \<^verbatim>\<open>push\<close> appends; \<open>now\<close> is the \<^verbatim>\<open>Date.now()\<close> of the
  entry that is pushed.
\<close>

definition undo :: "int \<Rightarrow> canvas_state \<Rightarrow> canvas_state" where
  "undo now s =
     (if undoStack s = [] then s
      else (let action = last (undoStack s);
                s1 = s\<lparr>undoStack := butlast (undoStack s)\<rparr>
            in case executeUndo (u_action action) s1 of
                 (s2, None) \<Rightarrow> s2
               | (s2, Some reverseData) \<Rightarrow>
                   s2\<lparr>redoStack := redoStack s2 @
                                     [\<lparr>r_action = reverseData, r_timestamp = now\<rparr>]\<rparr>))"

definition redo :: "int \<Rightarrow> canvas_state \<Rightarrow> canvas_state" where
  "redo now s =
     (if redoStack s = [] then s
      else (let action = last (redoStack s);
                s1 = s\<lparr>redoStack := butlast (redoStack s)\<rparr>
            in case executeRedo (r_action action) s1 of
                 (s2, None) \<Rightarrow> s2
               | (s2, Some reverseData) \<Rightarrow>
                   s2\<lparr>undoStack := undoStack s2 @
                                     [\<lparr>u_action = reverseData, u_timestamp = now\<rparr>]\<rparr>))"

text \<open>A history of calls of \<^verbatim>\<open>recordAction\<close>, \<^verbatim>\<open>undo\<close> and \<^verbatim>\<open>redo\<close>, in any order.\<close>

datatype history_op = Record undo_action int | Undo int | Redo int

fun history_step :: "history_op \<Rightarrow> canvas_state \<Rightarrow> canvas_state" where
  "history_step (Record a now) s = recordAction a now s"
| "history_step (Undo now) s = undo now s"
| "history_step (Redo now) s = redo now s"

definition run_history :: "history_op list \<Rightarrow> canvas_state \<Rightarrow> canvas_state" where
  "run_history ops s = fold history_step ops s"

section \<open>Notions used in the statements\<close>

text \<open>
  The Scene is the three arrays. \<open>scene_ids\<close> lists the ids of all its entities and
  \<open>entity_count\<close> counts the entities that carry a given id, over the three arrays together.
\<close>

definition scene :: "canvas_state \<Rightarrow> canvas_object list \<times> stroke list \<times> connector list" where
  "scene s = (objects s, strokes s, connectors s)"

definition scene_ids :: "canvas_state \<Rightarrow> string list" where
  "scene_ids s = map o_id (objects s) @ map s_id (strokes s) @ map c_id (connectors s)"

definition entity_count :: "string \<Rightarrow> canvas_state \<Rightarrow> nat" where
  "entity_count i s =
     length (filter (\<lambda>ob. o_id ob = i) (objects s)) +
     length (filter (\<lambda>st. s_id st = i) (strokes s)) +
     length (filter (\<lambda>c. c_id c = i) (connectors s))"

text \<open>
  The id of an add event, the ids that the entities of the other two kinds carry, and the
  delete events whose id is the id of no entity of their kind.
\<close>

fun add_event_id :: "event \<Rightarrow> string option" where
  "add_event_id (Object_add p) = Some (o_id p)"
| "add_event_id (Connector_add p) = Some (c_id p)"
| "add_event_id (Draw_stroke p) = Some (s_id p)"
| "add_event_id _ = None"

fun ids_of_other_kinds :: "event \<Rightarrow> canvas_state \<Rightarrow> string list" where
  "ids_of_other_kinds (Object_add p) s = map s_id (strokes s) @ map c_id (connectors s)"
| "ids_of_other_kinds (Connector_add p) s = map o_id (objects s) @ map s_id (strokes s)"
| "ids_of_other_kinds (Draw_stroke p) s = map o_id (objects s) @ map c_id (connectors s)"
| "ids_of_other_kinds _ s = []"

fun delete_misses :: "event \<Rightarrow> canvas_state \<Rightarrow> bool" where
  "delete_misses (Object_delete i) s = (i \<notin> set (map o_id (objects s)))"
| "delete_misses (Stroke_delete i) s = (i \<notin> set (map s_id (strokes s)))"
| "delete_misses (Connector_delete i) s = (i \<notin> set (map c_id (connectors s)))"
| "delete_misses _ s = False"

text \<open>
  The z-indices of the Scene, over its three arrays: \<^verbatim>\<open>zIndex || 0\<close> of each object and of
  each connector, as the code reads them, and the \<^verbatim>\<open>zIndex\<close> of each stroke that carries one.
  The component gives no stroke a z-index: \<^verbatim>\<open>startDrawing\<close> creates a stroke with \<^verbatim>\<open>id\<close>,
  \<^verbatim>\<open>points\<close>, \<^verbatim>\<open>color\<close> and \<^verbatim>\<open>width\<close>, and every assignment to a \<^verbatim>\<open>zIndex\<close> is to an object or to a
  connector. \<open>MAX_SAFE_INTEGER\<close> is \<^verbatim>\<open>Number.MAX_SAFE_INTEGER\<close>, the largest \<open>n\<close> for which
  \<open>n\<close> and \<open>n + 1\<close> are both doubles.
\<close>

definition scene_zs :: "canvas_state \<Rightarrow> int list" where
  "scene_zs s =
     map (\<lambda>ob. zOr0 (o_zIndex ob)) (objects s) @
     concat (map (\<lambda>st. case s_zIndex st of None \<Rightarrow> [] | Some z \<Rightarrow> [z]) (strokes s)) @
     map (\<lambda>c. zOr0 (c_zIndex c)) (connectors s)"

definition strokes_unlayered :: "canvas_state \<Rightarrow> bool" where
  "strokes_unlayered s = list_all (\<lambda>st. s_zIndex st = None) (strokes s)"

definition MAX_SAFE_INTEGER :: int where
  "MAX_SAFE_INTEGER = 2 ^ 53 - 1"

definition safe_zs :: "canvas_state \<Rightarrow> bool" where
  "safe_zs s = list_all (\<lambda>z. \<bar>z\<bar> \<le> MAX_SAFE_INTEGER) (scene_zs s)"

text \<open>
  An object moved by \<open>(dx, dy)\<close> as the drag of a multi-selection and \<^verbatim>\<open>moveGroupChildren\<close> do
  it (\<^verbatim>\<open>obj.x += dx; obj.y += dy\<close>), on the object found by id.
\<close>

definition translateObject :: "string \<Rightarrow> real \<Rightarrow> real \<Rightarrow> canvas_state \<Rightarrow> canvas_state" where
  "translateObject i dx dy s =
     s\<lparr>objects := update_first (\<lambda>ob. o_id ob = i)
                     (\<lambda>ob. ob\<lparr>o_x := num_add (o_x ob) dx, o_y := num_add (o_y ob) dy\<rparr>)
                     (objects s)\<rparr>"

text \<open>
  A geometry on which the sums of \<^verbatim>\<open>getAnchorPoint\<close> are exact: position, size and delta are
  whole numbers of magnitude at most \<open>2 ^ 40\<close>, and the anchor is not the centre of a triangle,
  whose \<open>y\<close> is \<^verbatim>\<open>obj.y + obj.height * 0.6\<close>.
\<close>

definition whole :: "real \<Rightarrow> bool" where
  "whole v = (v = of_int \<lfloor>v\<rfloor> \<and> \<bar>v\<bar> \<le> 2 ^ 40)"

definition exact_geometry :: "canvas_object \<Rightarrow> real \<Rightarrow> real \<Rightarrow> string \<Rightarrow> bool" where
  "exact_geometry obj dx dy pos =
     (whole (o_x obj) \<and> whole (o_y obj) \<and> whole (o_width obj) \<and> whole (o_height obj) \<and>
      whole dx \<and> whole dy \<and>
      (o_type obj = ''triangle'' \<longrightarrow> pos \<in> set [''top'', ''bottom'', ''left'', ''right'']))"

text \<open>The pointer events that are moves.\<close>

fun is_move :: "pointer_event \<Rightarrow> bool" where
  "is_move (Mouse_move now x y) = True"
| "is_move (Cursor_settles k ok) = False"

subsection \<open>Notions for undo and redo\<close>

text \<open>
  The ids are distinct within each array, and two states hold the same entities when each
  array of one is a permutation of the same array of the other.
\<close>

definition ids_distinct :: "canvas_state \<Rightarrow> bool" where
  "ids_distinct s =
     (distinct (map o_id (objects s)) \<and> distinct (map s_id (strokes s)) \<and>
      distinct (map c_id (connectors s)))"

definition same_entities :: "canvas_state \<Rightarrow> canvas_state \<Rightarrow> bool" where
  "same_entities a b =
     (mset (objects a) = mset (objects b) \<and> mset (strokes a) = mset (strokes b) \<and>
      mset (connectors a) = mset (connectors b))"

text \<open>
  When an undo step can be redone. An undo that puts a deleted entity back needs its id to be
  absent, since the redo removes every entity with that id. A style or connector restore can
  be taken back only for the optional properties the entity already has, since a property
  that was absent is recorded as \<^verbatim>\<open>undefined\<close> and not assigned by the redo; a connector restore
  must also keep the id.
\<close>

definition keeps_optional :: "'a option \<Rightarrow> 'b option \<Rightarrow> bool" where
  "keeps_optional recorded current = (recorded = None \<or> current \<noteq> None)"

fun restore_ready :: "restore_data \<Rightarrow> canvas_state \<Rightarrow> bool" where
  "restore_ready (Style_data i pc pb pa po pf) s =
     (case find (\<lambda>ob. o_id ob = i) (objects s) of
        None \<Rightarrow> True
      | Some obj \<Rightarrow>
          keeps_optional pc (o_color obj) \<and> keeps_optional pb (o_borderColor obj) \<and>
          keeps_optional pa (o_textAlign obj) \<and> keeps_optional po (o_textOverflow obj) \<and>
          keeps_optional pf (o_fontSize obj))"
| "restore_ready (Connector_update_data i p) s =
     (case find (\<lambda>c. c_id c = i) (connectors s) of
        None \<Rightarrow> True
      | Some conn \<Rightarrow>
          cp_id p = i \<and>
          keeps_optional (cp_startAnchor p) (c_startAnchor conn) \<and>
          keeps_optional (cp_endAnchor p) (c_endAnchor conn) \<and>
          keeps_optional (cp_startPoint p) (c_startPoint conn) \<and>
          keeps_optional (cp_endPoint p) (c_endPoint conn) \<and>
          keeps_optional (cp_waypoints p) (c_waypoints conn) \<and>
          keeps_optional (cp_controlPoint1 p) (c_controlPoint1 conn) \<and>
          keeps_optional (cp_controlPoint2 p) (c_controlPoint2 conn) \<and>
          keeps_optional (cp_label p) (c_label conn) \<and>
          keeps_optional (cp_labelPosition p) (c_labelPosition conn) \<and>
          keeps_optional (cp_zIndex p) (c_zIndex conn))"
| "restore_ready _ s = True"

fun undo_ready :: "undo_action \<Rightarrow> canvas_state \<Rightarrow> bool" where
  "undo_ready (U_object_delete obj) s = (o_id obj \<notin> set (map o_id (objects s)))"
| "undo_ready (U_group_ungroup grp) s = (o_id grp \<notin> set (map o_id (objects s)))"
| "undo_ready (U_connector_delete conn) s = (c_id conn \<notin> set (map c_id (connectors s)))"
| "undo_ready (U_stroke_delete strk) s = (s_id strk \<notin> set (map s_id (strokes s)))"
| "undo_ready (U_restore d) s = restore_ready d s"
| "undo_ready _ s = True"

text \<open>
  \<open>history_ready ts s\<close>: each of the undos done at the times \<open>ts\<close>, starting from \<open>s\<close>, finds
  the stack empty or its top entry ready.
\<close>

fun history_ready :: "int list \<Rightarrow> canvas_state \<Rightarrow> bool" where
  "history_ready [] s = True"
| "history_ready (t # ts) s =
     ((case undoStack s of [] \<Rightarrow> True | _ \<Rightarrow> undo_ready (u_action (last (undoStack s))) s) \<and>
      history_ready ts (undo t s))"

text \<open>
  The ids of the three arrays, in array order, and what one undo step and the redo of the
  same action do to them: the undo of an add filters the id out and its redo appends it, the
  undo of a delete appends the id and its redo filters it out, a restore keeps the ids.
\<close>

type_synonym id_lists = "string list \<times> string list \<times> string list"

definition entity_ids :: "canvas_state \<Rightarrow> id_lists" where
  "entity_ids s = (map o_id (objects s), map s_id (strokes s), map c_id (connectors s))"

fun undo_ids :: "undo_action \<Rightarrow> id_lists \<Rightarrow> id_lists" where
  "undo_ids (U_object_add i) (os, ss, cs) = (filter (\<lambda>j. j \<noteq> i) os, ss, cs)"
| "undo_ids (U_group_create i) (os, ss, cs) = (filter (\<lambda>j. j \<noteq> i) os, ss, cs)"
| "undo_ids (U_object_delete obj) (os, ss, cs) = (os @ [o_id obj], ss, cs)"
| "undo_ids (U_group_ungroup grp) (os, ss, cs) = (os @ [o_id grp], ss, cs)"
| "undo_ids (U_connector_add i) (os, ss, cs) = (os, ss, filter (\<lambda>j. j \<noteq> i) cs)"
| "undo_ids (U_connector_delete conn) (os, ss, cs) = (os, ss, cs @ [c_id conn])"
| "undo_ids (U_stroke_add i) (os, ss, cs) = (os, filter (\<lambda>j. j \<noteq> i) ss, cs)"
| "undo_ids (U_stroke_delete strk) (os, ss, cs) = (os, ss @ [s_id strk], cs)"
| "undo_ids (U_restore d) ids = ids"
| "undo_ids (U_unknown ty) ids = ids"

fun redo_ids :: "undo_action \<Rightarrow> id_lists \<Rightarrow> id_lists" where
  "redo_ids (U_object_add i) (os, ss, cs) = (os @ [i], ss, cs)"
| "redo_ids (U_group_create i) (os, ss, cs) = (os @ [i], ss, cs)"
| "redo_ids (U_object_delete obj) (os, ss, cs) = (filter (\<lambda>j. j \<noteq> o_id obj) os, ss, cs)"
| "redo_ids (U_group_ungroup grp) (os, ss, cs) = (filter (\<lambda>j. j \<noteq> o_id grp) os, ss, cs)"
| "redo_ids (U_connector_add i) (os, ss, cs) = (os, ss, cs @ [i])"
| "redo_ids (U_connector_delete conn) (os, ss, cs) = (os, ss, filter (\<lambda>j. j \<noteq> c_id conn) cs)"
| "redo_ids (U_stroke_add i) (os, ss, cs) = (os, ss @ [i], cs)"
| "redo_ids (U_stroke_delete strk) (os, ss, cs) = (os, filter (\<lambda>j. j \<noteq> s_id strk) ss, cs)"
| "redo_ids (U_restore d) ids = ids"
| "redo_ids (U_unknown ty) ids = ids"

text \<open>
  \<open>kept put_back ids\<close> drops the ids that the undos done so far have put back. The undo of an
  add (or of a group creation) keeps the array order if the entity it removes is absent, has
  itself been put back, or is the last of its array once the entities put back are left out:
  then the redo, which appends the entity, returns it to its place.
\<close>

definition kept :: "string list \<Rightarrow> string list \<Rightarrow> string list" where
  "kept put_back ids = filter (\<lambda>i. i \<notin> set put_back) ids"

fun kept3 :: "id_lists \<Rightarrow> id_lists \<Rightarrow> id_lists" where
  "kept3 (po, ps, pc) (os, ss, cs) = (kept po os, kept ps ss, kept pc cs)"

fun put_back_after :: "undo_action \<Rightarrow> id_lists \<Rightarrow> id_lists" where
  "put_back_after (U_object_delete obj) (po, ps, pc) = (o_id obj # po, ps, pc)"
| "put_back_after (U_group_ungroup grp) (po, ps, pc) = (o_id grp # po, ps, pc)"
| "put_back_after (U_connector_delete conn) (po, ps, pc) = (po, ps, c_id conn # pc)"
| "put_back_after (U_stroke_delete strk) (po, ps, pc) = (po, s_id strk # ps, pc)"
| "put_back_after _ pb = pb"

definition removes_last :: "string list \<Rightarrow> string \<Rightarrow> string list \<Rightarrow> bool" where
  "removes_last put_back i ids =
     (i \<notin> set ids \<or> i \<in> set put_back \<or>
      (kept put_back ids \<noteq> [] \<and> last (kept put_back ids) = i))"

fun step_exact :: "id_lists \<Rightarrow> undo_action \<Rightarrow> id_lists \<Rightarrow> bool" where
  "step_exact (po, ps, pc) (U_object_add i) (os, ss, cs) = removes_last po i os"
| "step_exact (po, ps, pc) (U_group_create i) (os, ss, cs) = removes_last po i os"
| "step_exact (po, ps, pc) (U_connector_add i) (os, ss, cs) = removes_last pc i cs"
| "step_exact (po, ps, pc) (U_stroke_add i) (os, ss, cs) = removes_last ps i ss"
| "step_exact _ _ _ = True"

text \<open>
  \<open>exact_ready put_back ts s\<close>: every undo done at the times \<open>ts\<close>, starting from \<open>s\<close>,
  keeps the array order in this sense; \<open>put_back\<close> collects the ids that the undos re-insert.
\<close>

fun exact_ready :: "id_lists \<Rightarrow> int list \<Rightarrow> canvas_state \<Rightarrow> bool" where
  "exact_ready pb [] s = True"
| "exact_ready pb (t # ts) s =
     (case undoStack s of
        [] \<Rightarrow> exact_ready pb ts s
      | _ \<Rightarrow> step_exact pb (u_action (last (undoStack s))) (entity_ids s) \<and>
             exact_ready (put_back_after (u_action (last (undoStack s))) pb) ts (undo t s))"

text \<open>
  Whether the entity that the undo of an add removes is there, whether the id that the undo
  of a delete re-inserts is unused, and distinctness of three id lists.
\<close>

fun target_present :: "undo_action \<Rightarrow> id_lists \<Rightarrow> bool" where
  "target_present (U_object_add i) (os, ss, cs) = (i \<in> set os)"
| "target_present (U_group_create i) (os, ss, cs) = (i \<in> set os)"
| "target_present (U_connector_add i) (os, ss, cs) = (i \<in> set cs)"
| "target_present (U_stroke_add i) (os, ss, cs) = (i \<in> set ss)"
| "target_present _ _ = True"

fun put_back_fresh :: "undo_action \<Rightarrow> id_lists \<Rightarrow> bool" where
  "put_back_fresh (U_object_delete obj) (os, ss, cs) = (o_id obj \<notin> set os)"
| "put_back_fresh (U_group_ungroup grp) (os, ss, cs) = (o_id grp \<notin> set os)"
| "put_back_fresh (U_connector_delete conn) (os, ss, cs) = (c_id conn \<notin> set cs)"
| "put_back_fresh (U_stroke_delete strk) (os, ss, cs) = (s_id strk \<notin> set ss)"
| "put_back_fresh _ _ = True"

definition distinct3 :: "id_lists \<Rightarrow> bool" where
  "distinct3 ids = (case ids of (os, ss, cs) \<Rightarrow> distinct os \<and> distinct ss \<and> distinct cs)"

subsection \<open>Sample entities and states\<close>

definition sticky1 :: canvas_object where
  "sticky1 = \<lparr>o_id = ''u1-1-a'', o_type = ''sticky'', o_x = 100, o_y = 100, o_width = 150,
     o_height = 150, o_zIndex = Some 1, o_color = Some ''#fff740'', o_borderColor = None,
     o_borderWidth = None, o_text = Some ''Double-click to edit'', o_textAlign = None,
     o_textOverflow = None, o_fontSize = None, o_children = None, o_connectorIds = None\<rparr>"

definition rect2 :: canvas_object where
  "rect2 = \<lparr>o_id = ''u1-3-c'', o_type = ''rectangle'', o_x = 0, o_y = 0, o_width = 100,
     o_height = 60, o_zIndex = Some 4, o_color = None, o_borderColor = None,
     o_borderWidth = None, o_text = None, o_textAlign = None,
     o_textOverflow = None, o_fontSize = None, o_children = None, o_connectorIds = None\<rparr>"

definition stroke_z7 :: stroke where
  "stroke_z7 = \<lparr>s_id = ''u1-2-b'', s_color = ''#333333'', s_width = 3,
                 s_points = [\<lparr>pt_x = 0, pt_y = 0\<rparr>, \<lparr>pt_x = 5, pt_y = 5\<rparr>], s_zIndex = Some 7\<rparr>"

definition arrow1 :: connector where
  "arrow1 = \<lparr>c_id = ''u1-4-d'', c_connectorType = ''arrow'', c_startX = 250, c_startY = 175,
     c_endX = 400, c_endY = 300,
     c_startAnchor = Some (Some \<lparr>objectId = ''u1-1-a'', position = ''right''\<rparr>),
     c_endAnchor = Some None, c_startPoint = None, c_endPoint = None, c_waypoints = None,
     c_controlPoint1 = None, c_controlPoint2 = None, c_label = None, c_labelPosition = None,
     c_zIndex = Some 2\<rparr>"

definition selected_scene :: canvas_state where
  "selected_scene = (initial_state None)\<lparr>objects := [sticky1], selectedObject := Some sticky1,
                        hoveredObject := Some sticky1, selectedObjects := [sticky1]\<rparr>"

definition delete_sticky1 :: message where
  "delete_sticky1 = \<lparr>collab_User_Id = ''u1'', collab_Canvas_Id = ''default-canvas'',
                     collab_Event = Object_delete ''u1-1-a'', collab_User_Name = ''Ann''\<rparr>"

definition busy_history :: "history_op list" where
  "busy_history =
     [Record (U_object_delete sticky1) 1, Record (U_stroke_delete stroke_z7) 2,
      Record (U_object_delete rect2) 3, Undo 4, Undo 5, Redo 6,
      Record (U_object_add ''u1-1-a'') 7, Record (U_stroke_add ''u1-2-b'') 8,
      Record (U_object_add ''u1-3-c'') 9, Record (U_restore (Move_data ''u1-1-a'' 0 0)) 10,
      Undo 11, Redo 12]"

text \<open>
  Two objects at \<open>(0, 0)\<close> and \<open>(50, 0)\<close>, a connector with two floating end points, and a
  group of the three.
\<close>

definition child_o1 :: canvas_object where
  "child_o1 = \<lparr>o_id = ''O1'', o_type = ''rectangle'', o_x = 0, o_y = 0, o_width = 40,
     o_height = 40, o_zIndex = Some 1, o_color = None, o_borderColor = None,
     o_borderWidth = None, o_text = None, o_textAlign = None,
     o_textOverflow = None, o_fontSize = None, o_children = None, o_connectorIds = None\<rparr>"

definition child_o2 :: canvas_object where
  "child_o2 = \<lparr>o_id = ''O2'', o_type = ''rectangle'', o_x = 50, o_y = 0, o_width = 40,
     o_height = 40, o_zIndex = Some 2, o_color = None, o_borderColor = None,
     o_borderWidth = None, o_text = None, o_textAlign = None,
     o_textOverflow = None, o_fontSize = None, o_children = None, o_connectorIds = None\<rparr>"

definition floating_line :: connector where
  "floating_line = \<lparr>c_id = ''K1'', c_connectorType = ''line'', c_startX = 0, c_startY = 100,
     c_endX = 90, c_endY = 100, c_startAnchor = Some None, c_endAnchor = Some None,
     c_startPoint = None, c_endPoint = None, c_waypoints = None,
     c_controlPoint1 = None, c_controlPoint2 = None, c_label = None, c_labelPosition = None,
     c_zIndex = Some 3\<rparr>"

definition group_g :: canvas_object where
  "group_g = \<lparr>o_id = ''G'', o_type = ''group'', o_x = 0, o_y = 0, o_width = 90,
     o_height = 40, o_zIndex = Some 4, o_color = None, o_borderColor = None,
     o_borderWidth = None, o_text = None, o_textAlign = None,
     o_textOverflow = None, o_fontSize = None, o_children = Some [''O1'', ''O2''],
     o_connectorIds = Some [''K1'']\<rparr>"

definition grouped_scene :: canvas_state where
  "grouped_scene = (initial_state None)\<lparr>objects := [child_o1, child_o2, group_g],
                                        connectors := [floating_line]\<rparr>"

text \<open>
  A note added locally and recorded, followed by a rectangle added by a peer; and two
  canvases with a history of three recorded actions (the note added, the note moved from
  \<open>(100, 100)\<close>, a stroke deleted), the note being the first object on one and the last on
  the other.
\<close>

definition own_note :: canvas_object where
  "own_note = \<lparr>o_id = ''u2-5-e'', o_type = ''sticky'', o_x = 120, o_y = 140, o_width = 150,
     o_height = 150, o_zIndex = Some 1, o_color = Some ''#fff740'', o_borderColor = None,
     o_borderWidth = None, o_text = Some ''Double-click to edit'', o_textAlign = None,
     o_textOverflow = None, o_fontSize = None, o_children = None, o_connectorIds = None\<rparr>"

definition add_rect2 :: message where
  "add_rect2 = \<lparr>collab_User_Id = ''u1'', collab_Canvas_Id = ''default-canvas'',
                collab_Event = Object_add rect2, collab_User_Name = ''Ann''\<rparr>"

definition note_then_remote_rect :: canvas_state where
  "note_then_remote_rect =
     handlePlatformEvent ''u2'' True add_rect2
       (recordAction (U_object_add ''u2-5-e'') 1 ((initial_state None)\<lparr>objects := [own_note]\<rparr>))"

definition three_actions :: canvas_state where
  "three_actions =
     (initial_state None)\<lparr>objects := [own_note, rect2],
        undoStack := [\<lparr>u_action = U_object_add ''u2-5-e'', u_timestamp = 1\<rparr>,
                      \<lparr>u_action = U_restore (Move_data ''u2-5-e'' 100 100), u_timestamp = 2\<rparr>,
                      \<lparr>u_action = U_stroke_delete stroke_z7, u_timestamp = 3\<rparr>]\<rparr>"

definition plain_history :: canvas_state where
  "plain_history =
     (initial_state None)\<lparr>objects := [rect2, own_note],
        undoStack := [\<lparr>u_action = U_object_add ''u2-5-e'', u_timestamp = 1\<rparr>,
                      \<lparr>u_action = U_restore (Move_data ''u2-5-e'' 100 100), u_timestamp = 2\<rparr>,
                      \<lparr>u_action = U_stroke_delete stroke_z7, u_timestamp = 3\<rparr>]\<rparr>"

text \<open>
  A stroke as \<^verbatim>\<open>startDrawing\<close> creates it, and a canvas with two objects, this stroke and a
  connector.
\<close>

definition pen_stroke :: stroke where
  "pen_stroke = \<lparr>s_id = ''u1-6-f'', s_color = ''#333333'', s_width = 3,
                 s_points = [\<lparr>pt_x = 10, pt_y = 10\<rparr>, \<lparr>pt_x = 14, pt_y = 12\<rparr>], s_zIndex = None\<rparr>"

definition layered_scene :: canvas_state where
  "layered_scene = (initial_state None)\<lparr>objects := [sticky1, rect2], strokes := [pen_stroke],
                                        connectors := [arrow1]\<rparr>"

text \<open>
  A note whose \<open>x\<close> is the double \<^verbatim>\<open>0.1\<close>, with a connector anchored at its right edge, and the
  delta \<^verbatim>\<open>0.2\<close>.
\<close>

definition note_at_tenth :: canvas_object where
  "note_at_tenth = sticky1\<lparr>o_x := to_double (1/10), o_y := 0\<rparr>"

definition tenth_scene :: canvas_state where
  "tenth_scene = (initial_state None)\<lparr>objects := [note_at_tenth], connectors := [arrow1]\<rparr>"

definition two_tenths :: real where
  "two_tenths = to_double (2/10)"

text \<open>
  Three pointer moves 16 ms apart, each 12 px to the right of the one before; first with no
  call of \<^verbatim>\<open>updateCursor\<close> settling in between, then with each call resolved before the next
  move.
\<close>

definition quick_moves :: "pointer_event list" where
  "quick_moves =
     [Mouse_move 1700000000000 100 100, Mouse_move 1700000000016 112 100,
      Mouse_move 1700000000032 124 100]"

definition quick_moves_settled :: "pointer_event list" where
  "quick_moves_settled =
     [Mouse_move 1700000000000 100 100, Cursor_settles 0 True,
      Mouse_move 1700000000016 112 100, Cursor_settles 0 True,
      Mouse_move 1700000000032 124 100, Cursor_settles 0 True]"

section \<open>Sums of doubles that are exact\<close>

lemma ilog2_upper:
  assumes "x \<noteq> 0" and "\<bar>x\<bar> < 2 powi (k + 1)"
  shows "ilog2 x \<le> k"
proof (cases "1 \<le> \<bar>x\<bar>")
  case True
  with assms(2) have "(1::real) < 2 powi (k + 1)" by simp
  have "k < 0 \<Longrightarrow> 2 powi (k + 1) \<le> (1::real)"
    by (simp add: power_int_def power_le_one field_simps)
  with \<open>1 < 2 powi (k + 1)\<close> have k: "0 \<le> k" by force
  then have p: "2 powi (k + 1) = (2::real) ^ nat (k + 1)" by (simp add: power_int_def)
  have "of_int \<lfloor>\<bar>x\<bar>\<rfloor> \<le> \<bar>x\<bar>" by simp
  with assms(2) p have "real_of_int \<lfloor>\<bar>x\<bar>\<rfloor> < 2 ^ nat (k + 1)" by linarith
  then have "\<lfloor>\<bar>x\<bar>\<rfloor> < 2 ^ nat (k + 1)"
    by (metis of_int_less_iff of_int_numeral of_int_power)
  with k have "bitlen \<lfloor>\<bar>x\<bar>\<rfloor> \<le> k + 1" by (simp add: bitlen_le_iff_power)
  with True show ?thesis by (simp add: ilog2_def)
next
  case False
  show ?thesis
  proof (cases "0 \<le> k")
    case True
    with False bitlen_nonneg [of "\<lceil>1 / \<bar>x\<bar>\<rceil> - 1"] show ?thesis by (simp add: ilog2_def)
  next
    case k: False
    define j where "j = nat (- (k + 1))"
    from k have kj: "k + 1 = - int j" by (simp add: j_def)
    from assms(1) have pos: "0 < \<bar>x\<bar>" by simp
    from assms(2) kj have "\<bar>x\<bar> < 1 / 2 ^ j" by (simp add: power_int_minus field_simps)
    with pos have "\<bar>x\<bar> * 2 ^ j < 1" by (simp add: field_simps)
    with pos have "2 ^ j < 1 / \<bar>x\<bar>" by (simp add: field_simps)
    also have "\<dots> \<le> of_int \<lceil>1 / \<bar>x\<bar>\<rceil>" by simp
    finally have "real_of_int (2 ^ j) < of_int \<lceil>1 / \<bar>x\<bar>\<rceil>" by simp
    then have "(2::int) ^ j < \<lceil>1 / \<bar>x\<bar>\<rceil>" by (simp only: of_int_less_iff)
    then have "(2::int) ^ j \<le> \<lceil>1 / \<bar>x\<bar>\<rceil> - 1" by simp
    then have "int j + 1 \<le> bitlen (\<lceil>1 / \<bar>x\<bar>\<rceil> - 1)"
      using bitlen_ge_iff_power [of "int j + 1" "\<lceil>1 / \<bar>x\<bar>\<rceil> - 1"] by (simp add: nat_add_distrib)
    with False kj show ?thesis by (simp add: ilog2_def)
  qed
qed

lemma round_half_even_of_int [simp]: "round_half_even (of_int n) = n"
  by (simp add: round_half_even_def)

lemma to_double_dyadic:
  assumes "\<bar>m\<bar> < 2 ^ 53" and "- 1074 \<le> e"
  shows "to_double (of_int m * 2 powi e) = of_int m * 2 powi e"
proof (cases "m = 0")
  case True
  then show ?thesis by (simp add: to_double_def)
next
  case False
  define x :: real where "x = of_int m * 2 powi e"
  define u where "u = ulp_exponent x"
  from False have x0: "x \<noteq> 0" by (simp add: x_def)
  from assms(1) have "real_of_int \<bar>m\<bar> < 2 ^ 53"
    by (metis of_int_less_iff of_int_numeral of_int_power)
  then have "\<bar>x\<bar> < 2 ^ 53 * 2 powi e"
    by (simp add: x_def abs_mult)
  also have "\<dots> = 2 powi (52 + e + 1)"
    by (simp add: power_int_add)
  finally have "ilog2 x \<le> 52 + e" using x0 by (rule ilog2_upper [rotated])
  with assms(2) have ue: "u \<le> e" by (simp add: u_def ulp_exponent_def)
  have "x / 2 powi u = of_int m * 2 powi (e - u)"
    by (simp add: x_def power_int_diff)
  also from ue have "\<dots> = of_int (m * 2 ^ nat (e - u))"
    by (simp add: power_int_def)
  finally have q: "x / 2 powi u = of_int (m * 2 ^ nat (e - u))" .
  have "to_double x = of_int (round_half_even (x / 2 powi u)) * 2 powi u"
    using x0 by (simp add: to_double_def u_def)
  also have "\<dots> = (x / 2 powi u) * 2 powi u"
    unfolding q round_half_even_of_int ..
  also have "\<dots> = x" by simp
  finally show ?thesis by (simp add: x_def)
qed

lemma to_double_of_int:
  assumes "\<bar>n\<bar> \<le> 2 ^ 53"
  shows "to_double (of_int n) = of_int n"
proof (cases "\<bar>n\<bar> < 2 ^ 53")
  case True
  from to_double_dyadic [OF True, of 0] show ?thesis by simp
next
  case False
  with assms have "n = 2 ^ 53 \<or> n = - (2 ^ 53)" by linarith
  then have "real_of_int n = of_int (n div 2) * 2 powi 1" by auto
  moreover from \<open>n = 2 ^ 53 \<or> n = - (2 ^ 53)\<close> have "\<bar>n div 2\<bar> < 2 ^ 53" by auto
  ultimately show ?thesis using to_double_dyadic [of "n div 2" 1] by simp
qed

lemma to_double_quarters:
  assumes "4 * x \<in> \<int>" and "\<bar>x\<bar> < 2 ^ 51"
  shows "to_double x = x"
proof -
  from assms(1) obtain m where m: "4 * x = of_int m" by (auto elim: Ints_cases)
  with assms(2) have "real_of_int \<bar>m\<bar> < 2 ^ 53" by (simp flip: m)
  then have "\<bar>m\<bar> < 2 ^ 53" by (metis of_int_less_iff of_int_numeral of_int_power)
  then have "to_double (of_int m * 2 powi (- 2)) = of_int m * 2 powi (- 2)"
    by (rule to_double_dyadic) simp
  moreover from m have "x = of_int m * 2 powi (- 2)"
    by (simp add: power_int_minus)
  ultimately show ?thesis by (simp only:)
qed

lemma to_double_numeral [simp]:
  "numeral k \<le> (2 ^ 53 :: int) \<Longrightarrow> to_double (numeral k) = numeral k"
  "numeral k \<le> (2 ^ 53 :: int) \<Longrightarrow> to_double (- numeral k) = - numeral k"
  "to_double 0 = 0" "to_double 1 = 1"
  using to_double_of_int [of "numeral k"] to_double_of_int [of "- numeral k"]
    to_double_of_int [of 1]
  by (simp_all add: to_double_def)

section \<open>Idempotent delivery of remote adds and deletes\<close>

lemma count_distinct_ids:
  "distinct (map f xs) \<Longrightarrow> length (filter (\<lambda>x. f x = i) xs) = (if i \<in> f ` set xs then 1 else 0)"
  by (induction xs) (auto simp: image_iff)

lemma filter_absent: "i \<notin> f ` set xs \<Longrightarrow> filter (\<lambda>x. f x \<noteq> i) xs = xs"
  by (induction xs) auto

lemma count_absent: "i \<notin> f ` set xs \<Longrightarrow> length (filter (\<lambda>x. f x = i) xs) = 0"
  by (induction xs) auto

lemmas remote_handler_defs =
  handleRemoteObjectAdd_def handleRemoteObjectMove_def handleRemoteObjectResize_def
  handleRemoteObjectStyle_def handleRemoteObjectDelete_def handleRemoteStroke_def
  handleRemoteStrokeDelete_def handleRemoteConnectorAdd_def handleRemoteConnectorDelete_def
  handleRemoteConnectorUpdate_def handleRemoteLayerChange_def
  handleRemoteConnectorLayerChange_def handleRemoteGroupCreate_def
  handleRemoteGroupUngroup_def saveStateForNewUser_def showToast_def

lemma dispatch_recordId: "recordId (dispatch ok u e s) = recordId s"
  by (cases e) (auto simp: remote_handler_defs Let_def split: option.splits)

lemma dispatch_canvasId: "canvasId (dispatch ok u e s) = canvasId s"
  by (simp add: canvasId_def dispatch_recordId)

lemma add_twice:
  assumes "add_event_id e = Some i"
  shows "dispatch ok' u (e) (dispatch ok u e s) = dispatch ok u e s"
  using assms
  by (cases e) (auto simp: handleRemoteObjectAdd_def handleRemoteStroke_def handleRemoteConnectorAdd_def list_ex_iff Let_def)

lemma add_count:
  assumes "add_event_id e = Some i" "distinct (scene_ids s)" "i \<notin> set (ids_of_other_kinds e s)"
  shows "entity_count i (dispatch ok u e s) = 1"
  using assms
  by (cases e) (auto simp: handleRemoteObjectAdd_def handleRemoteStroke_def handleRemoteConnectorAdd_def list_ex_iff Let_def
      entity_count_def scene_ids_def count_distinct_ids count_absent image_iff)

lemma delete_miss:
  assumes "delete_misses e s"
  shows "scene (dispatch ok u e s) = scene s"
  using assms
  by (cases e) (auto simp: scene_def handleRemoteObjectDelete_def handleRemoteStrokeDelete_def handleRemoteConnectorDelete_def filter_absent Let_def split: option.splits)

text \<open>
  Claim C1. Take an event that passes the two filters of \<^verbatim>\<open>handlePlatformEvent\<close> (it comes from
  another user and is for this canvas). If it is an add event (\<^verbatim>\<open>object_add\<close>,
  \<^verbatim>\<open>connector_add\<close>, or \<^verbatim>\<open>draw_stroke\<close>, the add event of strokes), the ids of the Scene are
  distinct and the id of the event is not the id of an entity of another kind, then handling
  the event a second time changes nothing and the Scene holds exactly one entity with that
  id. If it is a delete event whose id no entity of its kind carries, the Scene stays as it
  is. The handlers are total functions: there is no input on which they throw.
\<close>

theorem remote_add_twice_delete_absent:
  assumes "collab_User_Id m \<noteq> uid" and "collab_Canvas_Id m = canvasId s"
  shows "(add_event_id (collab_Event m) = Some i \<and> distinct (scene_ids s) \<and>
          i \<notin> set (ids_of_other_kinds (collab_Event m) s) \<longrightarrow>
            handlePlatformEvent uid ok' m (handlePlatformEvent uid ok m s) =
              handlePlatformEvent uid ok m s \<and>
            entity_count i (handlePlatformEvent uid ok m s) = 1) \<and>
         (delete_misses (collab_Event m) s \<longrightarrow>
            scene (handlePlatformEvent uid ok m s) = scene s)"
  using assms
  by (auto simp: handlePlatformEvent_def dispatch_canvasId add_twice add_count delete_miss)

text \<open>
  The theorem at the empty canvas, for an \<^verbatim>\<open>object_add\<close> delivered twice and for an
  \<^verbatim>\<open>object_delete\<close> of an id that is not there.
\<close>

theorem remote_add_twice_delete_absent_witness:
  "(let m = \<lparr>collab_User_Id = ''u1'', collab_Canvas_Id = ''default-canvas'',
              collab_Event = Object_add sticky1, collab_User_Name = ''Ann''\<rparr>;
        s = initial_state None;
        s1 = handlePlatformEvent ''u2'' True m s
    in handlePlatformEvent ''u2'' True m s1 = s1 \<and> entity_count ''u1-1-a'' s1 = 1 \<and> objects s1 = [sticky1]) \<and>
   (let m = \<lparr>collab_User_Id = ''u1'', collab_Canvas_Id = ''default-canvas'',
              collab_Event = Object_delete ''u1-1-a'', collab_User_Name = ''Ann''\<rparr>;
        s = initial_state None
    in scene (handlePlatformEvent ''u2'' True m s) = scene s)"
proof -
  let ?m = "\<lparr>collab_User_Id = ''u1'', collab_Canvas_Id = ''default-canvas'',
              collab_Event = Object_add sticky1, collab_User_Name = ''Ann''\<rparr>"
  let ?d = "\<lparr>collab_User_Id = ''u1'', collab_Canvas_Id = ''default-canvas'',
              collab_Event = Object_delete ''u1-1-a'', collab_User_Name = ''Ann''\<rparr>"
  have a: "collab_User_Id ?m \<noteq> ''u2''" "collab_Canvas_Id ?m = canvasId (initial_state None)"
    by (simp_all add: canvasId_def initial_state_def)
  have b: "collab_User_Id ?d \<noteq> ''u2''" "collab_Canvas_Id ?d = canvasId (initial_state None)"
    by (simp_all add: canvasId_def initial_state_def)
  have c: "add_event_id (collab_Event ?m) = Some ''u1-1-a''" "distinct (scene_ids (initial_state None))"
     "''u1-1-a'' \<notin> set (ids_of_other_kinds (collab_Event ?m) (initial_state None))"
    by (simp_all add: sticky1_def scene_ids_def initial_state_def)
  have d: "delete_misses (collab_Event ?d) (initial_state None)"
    by (simp add: initial_state_def)
  have e: "objects (handlePlatformEvent ''u2'' True ?m (initial_state None)) = [sticky1]"
    by (simp add: handlePlatformEvent_def canvasId_def initial_state_def handleRemoteObjectAdd_def)
  from remote_add_twice_delete_absent [OF a, of "''u1-1-a''" True True] c
       remote_add_twice_delete_absent [OF b, of "''u1-1-a''" True True] d e
  show ?thesis by (simp add: Let_def)
qed

section \<open>The next z-index\<close>

lemma int_add_safe: "\<bar>a + b\<bar> \<le> 2 ^ 53 \<Longrightarrow> int_add a b = a + b"
  using to_double_of_int [of "a + b"] by (simp add: int_add_def)

lemma unlayered_no_zs:
  "list_all (\<lambda>st. s_zIndex st = None) xs \<Longrightarrow>
   concat (map (\<lambda>st. case s_zIndex st of None \<Rightarrow> [] | Some z \<Rightarrow> [z]) xs) = []"
  by (induction xs) auto

text \<open>
  Beyond the safe integers the addition rounds: with an object of z-index \<open>2 ^ 53\<close> the next
  z-index is \<open>2 ^ 53\<close> again.
\<close>

lemma getNextZIndex_beyond_safe:
  "getNextZIndex ((initial_state None)\<lparr>objects := [rect2\<lparr>o_zIndex := Some (2 ^ 53)\<rparr>]\<rparr>) = 2 ^ 53"
  by (simp add: getNextZIndex_def initial_state_def rect2_def zOr0_def int_add_def to_double_def
      ulp_exponent_def ilog2_def round_half_even_def Let_def compute_bitlen)

text \<open>
  Claim C3. On a Scene whose strokes carry no z-index, as the strokes of the component do, and
  whose z-indices are safe integers, \<^verbatim>\<open>getNextZIndex\<close> returns one plus the maximum z-index
  over the three arrays (a missing z-index of an object or of a connector counting as 0), and
  1 when there is none; the result is greater than every z-index of the Scene. The function
  reads the objects and the connectors, and the strokes have no z-index to add.
\<close>

theorem getNextZIndex_above_all:
  assumes "strokes_unlayered s" and "safe_zs s"
  shows "getNextZIndex s = (if scene_zs s = [] then 1 else Max (set (scene_zs s)) + 1) \<and>
         (\<forall>z \<in> set (scene_zs s). z < getNextZIndex s)"
proof -
  define zs where "zs = map (\<lambda>ob. zOr0 (o_zIndex ob)) (objects s) @
                        map (\<lambda>c. zOr0 (c_zIndex c)) (connectors s)"
  from assms(1) have all: "scene_zs s = zs"
    by (simp add: scene_zs_def strokes_unlayered_def unlayered_no_zs zs_def)
  have eq: "getNextZIndex s = (case zs of [] \<Rightarrow> 1 | z # zs' \<Rightarrow> int_add (fold max zs' z) 1)"
    by (simp add: getNextZIndex_def zs_def Let_def)
  show ?thesis
  proof (cases zs)
    case Nil
    with eq all show ?thesis by simp
  next
    case (Cons z zs')
    have m: "fold max zs' z = Max (set zs)"
      unfolding Cons by (rule Max.set_eq_fold [symmetric])
    have "Max (set zs) \<in> set zs" using Cons by (intro Max_in) simp_all
    with assms(2) all have "\<bar>Max (set zs)\<bar> \<le> 2 ^ 53 - 1"
      by (simp add: safe_zs_def MAX_SAFE_INTEGER_def list_all_iff)
    then have "\<bar>Max (set zs) + 1\<bar> \<le> 2 ^ 53" by linarith
    then have "int_add (Max (set zs)) 1 = Max (set zs) + 1" by (rule int_add_safe)
    with eq Cons m have n: "getNextZIndex s = Max (set zs) + 1" by simp
    have "v < getNextZIndex s" if "v \<in> set zs" for v
    proof -
      from that have "v \<le> Max (set zs)" by simp
      with n show ?thesis by simp
    qed
    with n all Cons show ?thesis by simp
  qed
qed

text \<open>
  The theorem on a canvas with two objects of z-index 1 and 4, a stroke and a connector of
  z-index 2.
\<close>

theorem getNextZIndex_above_all_witness:
  "strokes_unlayered layered_scene \<and> safe_zs layered_scene \<and>
   scene_zs layered_scene = [1, 4, 2] \<and> strokes layered_scene = [pen_stroke] \<and>
   getNextZIndex layered_scene = 5"
proof -
  have a: "strokes_unlayered layered_scene"
    by (simp add: strokes_unlayered_def layered_scene_def pen_stroke_def)
  have z: "scene_zs layered_scene = [1, 4, 2]"
    by (simp add: scene_zs_def layered_scene_def pen_stroke_def sticky1_def rect2_def arrow1_def
        zOr0_def initial_state_def)
  have b: "safe_zs layered_scene"
    by (simp add: safe_zs_def z MAX_SAFE_INTEGER_def)
  from getNextZIndex_above_all [OF a b] a b z show ?thesis
    by (simp add: layered_scene_def)
qed

section \<open>Anchored connector end points\<close>

lemma find_update_first:
  "(\<And>x. P x \<Longrightarrow> P (f x)) \<Longrightarrow> find P (update_first P f xs) = map_option f (find P xs)"
  by (induction xs) auto

lemma whole_Ints: "whole v \<Longrightarrow> v \<in> \<int>"
  unfolding whole_def by (metis Ints_of_int)

lemma whole_bound: "whole v \<Longrightarrow> \<bar>v\<bar> \<le> 2 ^ 40"
  by (simp add: whole_def)

lemma quarters_add: "4 * a \<in> \<int> \<Longrightarrow> 4 * b \<in> \<int> \<Longrightarrow> 4 * (a + b) \<in> (\<int> :: real set)"
  by (simp add: distrib_left)

lemma exact_offset:
  assumes "x \<in> \<int>" "\<bar>x\<bar> \<le> 2 ^ 40" "d \<in> \<int>" "\<bar>d\<bar> \<le> 2 ^ 40" "4 * c \<in> \<int>" "\<bar>c\<bar> \<le> 2 ^ 40"
  shows "num_add (x + d) c = num_add x c + d"
proof -
  from assms have "to_double (x + d) = x + d" "to_double (x + d + c) = x + d + c"
    "to_double (x + c) = x + c"
    by (simp_all add: to_double_quarters quarters_add)
  then show ?thesis by (simp add: num_add_def)
qed

lemma exact_shift:
  assumes "x \<in> \<int>" "\<bar>x\<bar> \<le> 2 ^ 40" "d \<in> \<int>" "\<bar>d\<bar> \<le> 2 ^ 40"
  shows "num_add x d = x + d"
  using assms by (simp add: num_add_def to_double_quarters quarters_add)

lemma exact_parts:
  assumes "w \<in> \<int>" "\<bar>w\<bar> \<le> 2 ^ 40"
  shows "4 * w \<in> \<int>" "4 * num_div w 2 \<in> \<int>" "\<bar>num_div w 2\<bar> \<le> 2 ^ 40"
    "4 * num_mul w (1/4) \<in> \<int>" "\<bar>num_mul w (1/4)\<bar> \<le> 2 ^ 40"
    "4 * num_mul w (1/2) \<in> \<int>" "\<bar>num_mul w (1/2)\<bar> \<le> 2 ^ 40"
    "4 * num_mul w (3/4) \<in> \<int>" "\<bar>num_mul w (3/4)\<bar> \<le> 2 ^ 40"
  using assms by (simp_all add: num_div_def num_mul_def to_double_quarters)

lemma getAnchorPoint_translate_exact:
  assumes "exact_geometry obj dx dy pos"
  shows "getAnchorPoint (obj\<lparr>o_x := num_add (o_x obj) dx, o_y := num_add (o_y obj) dy\<rparr>) pos =
           \<lparr>pt_x = pt_x (getAnchorPoint obj pos) + dx, pt_y = pt_y (getAnchorPoint obj pos) + dy\<rparr>"
proof -
  from assms have wh: "whole (o_x obj)" "whole (o_y obj)" "whole (o_width obj)"
      "whole (o_height obj)" "whole dx" "whole dy"
    and t: "o_type obj = ''triangle'' \<longrightarrow> pos \<in> set [''top'', ''bottom'', ''left'', ''right'']"
    by (simp_all add: exact_geometry_def)
  note i = wh [THEN whole_Ints] and b = wh [THEN whole_bound]
  note pw = exact_parts [OF i(3) b(3)] and ph = exact_parts [OF i(4) b(4)]
  note x0 = exact_shift [OF i(1) b(1) i(5) b(5)] and y0 = exact_shift [OF i(2) b(2) i(6) b(6)]
  note xo = exact_offset [OF i(1) b(1) i(5) b(5)] and yo = exact_offset [OF i(2) b(2) i(6) b(6)]
  note xs = xo [OF pw(1) b(3)] xo [OF pw(2) pw(3)] xo [OF pw(4) pw(5)] xo [OF pw(8) pw(9)]
  note ys = yo [OF ph(1) b(4)] yo [OF ph(2) ph(3)] yo [OF ph(6) ph(7)]
  show ?thesis
  proof (cases "o_type obj = ''triangle''")
    case True
    with t have "pos = ''top'' \<or> pos = ''bottom'' \<or> pos = ''left'' \<or> pos = ''right''" by simp
    with True show ?thesis
      by (elim disjE) (simp_all add: getAnchorPoint_def xs ys x0 y0)
  next
    case False
    then show ?thesis
      by (simp add: getAnchorPoint_def Let_def xs ys x0 y0)
  qed
qed

text \<open>
  At the centre of a triangle the sum is not exact even on whole numbers: with \<open>y = 1824\<close>,
  height 588 and \<open>dy = -491\<close> the anchor of the moved object is not the anchor moved.
\<close>

lemma triangle_centre_rounds:
  "num_add 1824 (- 491) = 1333 \<and>
   pt_y (getAnchorPoint (rect2\<lparr>o_type := ''triangle'', o_y := 1333, o_height := 588\<rparr>) ''center'')
     \<noteq> pt_y (getAnchorPoint (rect2\<lparr>o_type := ''triangle'', o_y := 1824, o_height := 588\<rparr>)
              ''center'') + (- 491)"
  by (simp add: getAnchorPoint_def rect2_def num_add_def num_mul_def num_div_def
      to_double_def ulp_exponent_def ilog2_def round_half_even_def Let_def compute_bitlen)

text \<open>
  Claim C5 as stated fails. A note of width 150 whose \<open>x\<close> is the double \<^verbatim>\<open>0.1\<close> carries the
  anchor \<^verbatim>\<open>right\<close> of a connector, whose start resolves to \<open>x = 150.1\<close>. After the note moved
  by the double \<^verbatim>\<open>0.2\<close> the start resolves to the double \<^verbatim>\<open>150.3\<close>, which is neither the sum of
  the two as the code would add them (\<^verbatim>\<open>150.29999999999998\<close>) nor their exact sum.
\<close>

theorem anchored_start_rounding_counterexample:
  "find (\<lambda>ob. o_id ob = ''u1-1-a'') (objects tenth_scene) = Some note_at_tenth \<and>
   present (c_startAnchor arrow1) = Some \<lparr>objectId = ''u1-1-a'', position = ''right''\<rparr> \<and>
   o_x note_at_tenth = 3602879701896397 / 2 ^ 55 \<and> o_width note_at_tenth = 150 \<and>
   two_tenths = 3602879701896397 / 2 ^ 54 \<and>
   pt_x (resolveConnectorPoint tenth_scene arrow1 ''start'') = 5281174250533683 / 2 ^ 45 \<and>
   pt_x (resolveConnectorPoint (translateObject ''u1-1-a'' two_tenths 0 tenth_scene) arrow1 ''start'')
     = 5288211124951450 / 2 ^ 45 \<and>
   num_add (pt_x (resolveConnectorPoint tenth_scene arrow1 ''start'')) two_tenths
     = 5288211124951449 / 2 ^ 45 \<and>
   pt_x (resolveConnectorPoint (translateObject ''u1-1-a'' two_tenths 0 tenth_scene) arrow1 ''start'')
     \<noteq> num_add (pt_x (resolveConnectorPoint tenth_scene arrow1 ''start'')) two_tenths \<and>
   pt_x (resolveConnectorPoint (translateObject ''u1-1-a'' two_tenths 0 tenth_scene) arrow1 ''start'')
     \<noteq> pt_x (resolveConnectorPoint tenth_scene arrow1 ''start'') + two_tenths"
proof -
  note ev = to_double_def ulp_exponent_def ilog2_def round_half_even_def Let_def compute_bitlen
  have x: "to_double (1/10) = 3602879701896397 / 2 ^ 55"
    by (simp add: ev)
  have d: "two_tenths = 3602879701896397 / 2 ^ 54"
    by (simp add: two_tenths_def ev)
  have n: "note_at_tenth = sticky1\<lparr>o_x := 3602879701896397 / 2 ^ 55, o_y := 0\<rparr>"
    by (simp add: note_at_tenth_def x)
  have a: "present (c_startAnchor arrow1) = Some \<lparr>objectId = ''u1-1-a'', position = ''right''\<rparr>"
    by (simp add: arrow1_def present_def)
  have f: "find (\<lambda>ob. o_id ob = ''u1-1-a'') (objects tenth_scene) = Some note_at_tenth"
    by (simp add: tenth_scene_def n sticky1_def initial_state_def)
  have before: "pt_x (resolveConnectorPoint tenth_scene arrow1 ''start'') = 5281174250533683 / 2 ^ 45"
    by (simp add: resolveConnectorPoint_def a tenth_scene_def n sticky1_def initial_state_def
        getAnchorPoint_def num_add_def ev)
  have after: "pt_x (resolveConnectorPoint (translateObject ''u1-1-a'' two_tenths 0 tenth_scene)
                  arrow1 ''start'') = 5288211124951450 / 2 ^ 45"
    by (simp add: resolveConnectorPoint_def a translateObject_def tenth_scene_def n d sticky1_def
        initial_state_def getAnchorPoint_def num_add_def ev)
  have sum: "num_add (pt_x (resolveConnectorPoint tenth_scene arrow1 ''start'')) two_tenths
               = 5288211124951449 / 2 ^ 45"
    unfolding before d by (simp add: num_add_def ev)
  have o: "o_x note_at_tenth = 3602879701896397 / 2 ^ 55" "o_width note_at_tenth = 150"
    by (simp_all add: n sticky1_def)
  show ?thesis
    unfolding sum
    unfolding before after o
    by (simp add: f a d)
qed

text \<open>
  Claim C5, amended. Let the start of a connector carry an anchor with a non-empty \<^verbatim>\<open>objectId\<close>.
  If an object with that id is in the Scene, then after this object moved by \<open>(dx, dy)\<close> the
  start resolves to the anchor point of the moved object, and the connectors themselves are
  not touched; on a geometry where the sums are exact (position, size and delta whole numbers,
  not the centre of a triangle) this is the point resolved before, moved by \<open>(dx, dy)\<close>.
  If there is no such object, the resolved start point is the stored \<^verbatim>\<open>(startX, startY)\<close>.
\<close>

theorem anchored_start_reresolves:
  assumes "present (c_startAnchor conn) = Some a" and "objectId a \<noteq> []"
  shows "(\<forall>obj. find (\<lambda>ob. o_id ob = objectId a) (objects s) = Some obj \<longrightarrow>
            resolveConnectorPoint (translateObject (objectId a) dx dy s) conn ''start'' =
              getAnchorPoint (obj\<lparr>o_x := num_add (o_x obj) dx, o_y := num_add (o_y obj) dy\<rparr>)
                (position a) \<and>
            connectors (translateObject (objectId a) dx dy s) = connectors s \<and>
            (exact_geometry obj dx dy (position a) \<longrightarrow>
               resolveConnectorPoint (translateObject (objectId a) dx dy s) conn ''start'' =
                 \<lparr>pt_x = pt_x (resolveConnectorPoint s conn ''start'') + dx,
                  pt_y = pt_y (resolveConnectorPoint s conn ''start'') + dy\<rparr>)) \<and>
         (find (\<lambda>ob. o_id ob = objectId a) (objects s) = None \<longrightarrow>
            resolveConnectorPoint s conn ''start'' = \<lparr>pt_x = c_startX conn, pt_y = c_startY conn\<rparr>)"
  using assms
  by (auto simp: resolveConnectorPoint_def translateObject_def find_update_first
                 getAnchorPoint_translate_exact)

text \<open>
  The theorem for a connector anchored at the right edge of a sticky note: the start resolves
  to \<open>(250, 175)\<close>, after the note moved by \<open>(30, -40)\<close> to \<open>(280, 135)\<close>, and on a canvas
  without the note to the stored point.
\<close>

theorem anchored_start_reresolves_witness:
  "find (\<lambda>ob. o_id ob = ''u1-1-a'') (objects layered_scene) = Some sticky1 \<and>
   exact_geometry sticky1 30 (-40) ''right'' \<and>
   resolveConnectorPoint layered_scene arrow1 ''start'' = \<lparr>pt_x = 250, pt_y = 175\<rparr> \<and>
   resolveConnectorPoint (translateObject ''u1-1-a'' 30 (-40) layered_scene) arrow1 ''start'' =
     \<lparr>pt_x = 280, pt_y = 135\<rparr> \<and>
   connectors (translateObject ''u1-1-a'' 30 (-40) layered_scene) = [arrow1] \<and>
   find (\<lambda>ob. o_id ob = ''u1-1-a'') (objects (initial_state None)) = None \<and>
   resolveConnectorPoint (initial_state None) arrow1 ''start'' = \<lparr>pt_x = 250, pt_y = 175\<rparr>"
proof -
  have a: "present (c_startAnchor arrow1) = Some \<lparr>objectId = ''u1-1-a'', position = ''right''\<rparr>"
    by (simp add: arrow1_def present_def)
  have b: "objectId \<lparr>objectId = ''u1-1-a'', position = ''right''\<rparr> \<noteq> []" by simp
  have f: "find (\<lambda>ob. o_id ob = ''u1-1-a'') (objects layered_scene) = Some sticky1"
    by (simp add: layered_scene_def sticky1_def initial_state_def)
  have e: "exact_geometry sticky1 30 (-40) ''right''"
    by (simp add: exact_geometry_def whole_def sticky1_def)
  have c: "resolveConnectorPoint layered_scene arrow1 ''start'' = \<lparr>pt_x = 250, pt_y = 175\<rparr>"
    by (simp add: resolveConnectorPoint_def a f getAnchorPoint_def sticky1_def num_add_def
        num_div_def)
  have k: "connectors layered_scene = [arrow1]" "c_startX arrow1 = 250" "c_startY arrow1 = 175"
    "objects (initial_state None) = []"
    by (simp_all add: layered_scene_def initial_state_def arrow1_def)
  have g: "getAnchorPoint (sticky1\<lparr>o_x := num_add (o_x sticky1) 30,
                                     o_y := num_add (o_y sticky1) (- 40)\<rparr>) ''right'' =
             \<lparr>pt_x = 280, pt_y = 135\<rparr>"
    by (simp add: getAnchorPoint_def sticky1_def num_add_def num_div_def)
  from anchored_start_reresolves [OF a b, of layered_scene 30 "-40"]
       anchored_start_reresolves [OF a b, of "initial_state None" 0 0] f e c k g
  show ?thesis by simp
qed

section \<open>References to an entity deleted remotely\<close>

text \<open>
  Claim C6 fails for objects. The only object of the canvas is selected, hovered and part of
  the multi-selection; after a remote \<^verbatim>\<open>object_delete\<close> of its id the object is gone from the
  Scene, and \<^verbatim>\<open>selectedObject\<close>, \<^verbatim>\<open>hoveredObject\<close> and \<^verbatim>\<open>selectedObjects\<close> still refer to it.
\<close>

theorem remote_object_delete_keeps_references:
  "objects (handlePlatformEvent ''u2'' True delete_sticky1 selected_scene) = [] \<and>
   map_option o_id (selectedObject (handlePlatformEvent ''u2'' True delete_sticky1 selected_scene))
     = Some ''u1-1-a'' \<and>
   map_option o_id (hoveredObject (handlePlatformEvent ''u2'' True delete_sticky1 selected_scene))
     = Some ''u1-1-a'' \<and>
   map o_id (selectedObjects (handlePlatformEvent ''u2'' True delete_sticky1 selected_scene))
     = [''u1-1-a'']"
  by (simp add: handlePlatformEvent_def delete_sticky1_def selected_scene_def canvasId_def
      initial_state_def handleRemoteObjectDelete_def sticky1_def)

section \<open>The gate of cursor updates\<close>

text \<open>
  Pointer moves alone never assign \<^verbatim>\<open>lastSentCursor\<close> or \<^verbatim>\<open>lastCursorSendTime\<close>: whatever they
  send, the gate of the next move compares with the same position and time.
\<close>

lemma moves_keep_gate:
  "list_all is_move evs \<Longrightarrow>
   lastSentCursor (fst (fold pointer_step evs (s, p))) = lastSentCursor s \<and>
   lastCursorSendTime (fst (fold pointer_step evs (s, p))) = lastCursorSendTime s"
proof (induction evs arbitrary: s p)
  case Nil
  then show ?case by simp
next
  case (Cons e evs)
  then obtain now x y where e: "e = Mouse_move now x y" by (cases e) simp_all
  obtain s' p' where st: "pointer_step e (s, p) = (s', p')" by force
  with e have "lastSentCursor s' = lastSentCursor s \<and> lastCursorSendTime s' = lastCursorSendTime s"
    by (auto simp: sendCursorUpdate_def Let_def split: if_splits)
  with Cons st show ?case by simp
qed

text \<open>
  The gate tests \<^verbatim>\<open>now - lastCursorSendTime > 50\<close>: a move 11 px away from the last sent
  position, exactly 50 ms after the last send, is not sent.
\<close>

lemma cursor_not_sent_at_50ms:
  "fst (sendCursorUpdate 1700000000050 111 100
          ((initial_state None)\<lparr>lastSentCursor := \<lparr>pt_x = 100, pt_y = 100\<rparr>,
                                 lastCursorSendTime := 1700000000000\<rparr>)) =
     (initial_state None)\<lparr>lastSentCursor := \<lparr>pt_x = 100, pt_y = 100\<rparr>,
                            lastCursorSendTime := 1700000000000\<rparr> \<and>
   snd (sendCursorUpdate 1700000000050 111 100
          ((initial_state None)\<lparr>lastSentCursor := \<lparr>pt_x = 100, pt_y = 100\<rparr>,
                                 lastCursorSendTime := 1700000000000\<rparr>)) = None"
  by (simp add: initial_state_def sendCursorUpdate_def num_sub_def
      DELTA_THRESHOLD_def CURSOR_UPDATE_THROTTLE_def Let_def)

text \<open>
  Claim C7 fails while a call of \<^verbatim>\<open>updateCursor\<close> is pending. Three pointer moves 16 ms apart,
  each 12 px from the one before, arrive before the first call settles. \<^verbatim>\<open>lastSentCursor\<close> and
  \<^verbatim>\<open>lastCursorSendTime\<close> are assigned only when a call resolves, so the gate is open for all
  three moves: three updates are sent within 32 ms, and three calls are pending. Where each
  call resolves before the next move, the same moves send one update.
\<close>

theorem cursor_updates_in_flight:
  "cursor_sends (fst (pointer_run quick_moves (initial_state None, []))) =
     [UpdateCursor 100 100, UpdateCursor 112 100, UpdateCursor 124 100] \<and>
   map cc_now (snd (pointer_run quick_moves (initial_state None, []))) =
     [1700000000000, 1700000000016, 1700000000032] \<and>
   cursor_sends (fst (pointer_run quick_moves_settled (initial_state None, []))) =
     [UpdateCursor 100 100] \<and>
   lastSentCursor (fst (pointer_run quick_moves_settled (initial_state None, []))) =
     \<lparr>pt_x = 100, pt_y = 100\<rparr> \<and>
   lastCursorSendTime (fst (pointer_run quick_moves_settled (initial_state None, []))) =
     1700000000000"
  by (simp add: pointer_run_def quick_moves_def quick_moves_settled_def initial_state_def
      sendCursorUpdate_def sendCursorUpdate_settled_def cursor_sends_def num_sub_def
      DELTA_THRESHOLD_def CURSOR_UPDATE_THROTTLE_def Let_def)

section \<open>Persistence failures\<close>

text \<open>
  Claim C8 fails for a failed load. A failed \<^verbatim>\<open>handleSave\<close> dispatches the toast ``Error:
  Failed to save canvas''. A failed \<^verbatim>\<open>loadState\<close> (rejected, or unparsable) dispatches no toast
  and leaves the error message, \<^verbatim>\<open>isLoading\<close> and the Scene as they are; it writes two lines to
  the console. At start-up, \<^verbatim>\<open>initializeCanvas\<close> with a rejected load ends with no toast and no
  error message, and with the canvas ready and empty. The error state is reached when the
  set-up of the canvas element throws, not when the load fails.
\<close>

theorem failed_load_is_silent:
  "toasts (handleSave False s) =
     toasts s @ [\<lparr>t_title = ''Error'', t_message = ''Failed to save canvas'', t_variant = ''error''\<rparr>] \<and>
   toasts (loadState Load_rejected s) = toasts s \<and>
   errorMessage (loadState Load_rejected s) = errorMessage s \<and>
   isLoading (loadState Load_rejected s) = isLoading s \<and>
   scene (loadState Load_rejected s) = scene s \<and>
   consoleErrors (loadState Load_rejected s) =
     consoleErrors s @ [''Failed to load state:'', ''Error body:''] \<and>
   toasts (loadState Load_unparsable s) = toasts s \<and>
   errorMessage (loadState Load_unparsable s) = errorMessage s \<and>
   toasts (initializeCanvas None Load_rejected True (initial_state None)) = [] \<and>
   errorMessage (initializeCanvas None Load_rejected True (initial_state None)) = [] \<and>
   \<not> hasError (initializeCanvas None Load_rejected True (initial_state None)) \<and>
   \<not> isLoading (initializeCanvas None Load_rejected True (initial_state None)) \<and>
   isReady (initializeCanvas None Load_rejected True (initial_state None)) \<and>
   scene (initializeCanvas None Load_rejected True (initial_state None)) = ([], [], []) \<and>
   hasError (initializeCanvas (Some ''no canvas'') Load_rejected True (initial_state None))"
  by (simp add: handleSave_def loadState_def initializeCanvas_def announceJoin_def publish_def
      showToast_def isReady_def hasError_def scene_def initial_state_def Let_def)

section \<open>Remote events and the local history\<close>

text \<open>
  Claim C10. Handling a platform event, whatever its type, payload and sender, leaves the undo
  stack and the redo stack as they are.
\<close>

theorem remote_events_keep_history:
  "undoStack (handlePlatformEvent uid ok m s) = undoStack s \<and>
   redoStack (handlePlatformEvent uid ok m s) = redoStack s"
  by (cases "collab_Event m")
     (auto simp: handlePlatformEvent_def remote_handler_defs Let_def split: option.splits)

section \<open>The bound of the undo stack\<close>

lemma restore_stacks:
  "restore d s = (s', r) \<Longrightarrow> undoStack s' = undoStack s \<and> redoStack s' = redoStack s"
  by (cases d)
     (auto simp: publish_def publishObjectMove_def publishObjectResize_def publishObjectStyle_def
        publishObjectUpdate_def publishConnectorUpdate_def Let_def split: option.splits)

lemmas publish_defs = publish_def publishObjectAdd_def publishObjectDelete_def
  publishStroke_def publishStrokeDelete_def publishConnectorAdd_def publishConnectorDelete_def
  publishGroupCreate_def publishGroupUngroup_def publishObjectMove_def publishObjectResize_def
  publishObjectStyle_def publishObjectUpdate_def publishConnectorUpdate_def

lemma executeUndo_stacks:
  "executeUndo a s = (s', r) \<Longrightarrow> undoStack s' = undoStack s \<and> redoStack s' = redoStack s"
  by (cases a)
     (auto simp: publish_defs deselectObject_def deselectConnector_def Let_def
           dest: restore_stacks split: option.splits prod.splits)

lemma executeRedo_stacks:
  "executeRedo a s = (s', r) \<Longrightarrow> undoStack s' = undoStack s \<and> redoStack s' = redoStack s"
  by (cases a)
     (auto simp: publish_defs Let_def dest: restore_stacks split: option.splits prod.splits)

lemma undo_sizes:
  "length (undoStack (undo t s)) + length (redoStack (undo t s))
     \<le> length (undoStack s) + length (redoStack s)"
proof (cases "undoStack s = []")
  case True then show ?thesis by (simp add: undo_def)
next
  case False
  obtain s' r where e: "executeUndo (u_action (last (undoStack s)))
                          (s\<lparr>undoStack := butlast (undoStack s)\<rparr>) = (s', r)"
    by (cases "executeUndo (u_action (last (undoStack s))) (s\<lparr>undoStack := butlast (undoStack s)\<rparr>)")
  from executeUndo_stacks [OF e]
  have st: "undoStack s' = butlast (undoStack s)" "redoStack s' = redoStack s" by simp_all
  from False have "length (butlast (undoStack s)) + 1 = length (undoStack s)" by simp
  with False e st show ?thesis by (cases r) (simp_all add: undo_def Let_def)
qed

lemma redo_sizes:
  "length (undoStack (redo t s)) + length (redoStack (redo t s))
     \<le> length (undoStack s) + length (redoStack s)"
proof (cases "redoStack s = []")
  case True then show ?thesis by (simp add: redo_def)
next
  case False
  obtain s' r where e: "executeRedo (r_action (last (redoStack s)))
                          (s\<lparr>redoStack := butlast (redoStack s)\<rparr>) = (s', r)"
    by (cases "executeRedo (r_action (last (redoStack s))) (s\<lparr>redoStack := butlast (redoStack s)\<rparr>)")
  from executeRedo_stacks [OF e]
  have st: "redoStack s' = butlast (redoStack s)" "undoStack s' = undoStack s" by simp_all
  from False have "length (butlast (redoStack s)) + 1 = length (redoStack s)" by simp
  with False e st show ?thesis by (cases r) (simp_all add: redo_def Let_def)
qed

lemma recordAction_sizes:
  "length (undoStack s) \<le> 5 \<Longrightarrow>
   length (undoStack (recordAction a t s)) + length (redoStack (recordAction a t s)) \<le> 5"
  by (simp add: recordAction_def Let_def)

lemma history_step_sizes:
  "length (undoStack s) + length (redoStack s) \<le> 5 \<Longrightarrow>
   length (undoStack (history_step h s)) + length (redoStack (history_step h s)) \<le> 5"
proof (cases h)
  case (Record a t)
  assume "length (undoStack s) + length (redoStack s) \<le> 5"
  then have "length (undoStack s) \<le> 5" by simp
  from recordAction_sizes [OF this] Record show ?thesis by simp
next
  case (Undo t)
  assume "length (undoStack s) + length (redoStack s) \<le> 5"
  with undo_sizes [of t s] Undo show ?thesis by simp
next
  case (Redo t)
  assume "length (undoStack s) + length (redoStack s) \<le> 5"
  with redo_sizes [of t s] Redo show ?thesis by simp
qed

lemma run_history_sizes:
  "length (undoStack s) + length (redoStack s) \<le> 5 \<Longrightarrow>
   length (undoStack (run_history hs s)) + length (redoStack (run_history hs s)) \<le> 5"
  unfolding run_history_def
  by (induction hs arbitrary: s) (simp_all add: history_step_sizes)

text \<open>
  Claim C9. From empty stacks, after any sequence of \<^verbatim>\<open>recordAction\<close>, \<^verbatim>\<open>undo\<close> and \<^verbatim>\<open>redo\<close>
  the undo stack holds at most 5 entries; the two stacks together hold at most 5.
\<close>

theorem undo_stack_bounded:
  assumes "undoStack s = []" and "redoStack s = []"
  shows "length (undoStack (run_history hs s)) \<le> 5 \<and>
         length (undoStack (run_history hs s)) + length (redoStack (run_history hs s)) \<le> 5"
proof -
  from assms have "length (undoStack s) + length (redoStack s) \<le> 5" by simp
  from run_history_sizes [OF this, of hs] show ?thesis by simp
qed

text \<open>
  The theorem for a history of seven recordings, three undos and two redos.
\<close>

theorem undo_stack_bounded_witness:
  "undoStack (initial_state None) = [] \<and> redoStack (initial_state None) = [] \<and>
   length (undoStack (run_history busy_history (initial_state None))) \<le> 5"
  using undo_stack_bounded [of "initial_state None" busy_history]
  by (simp add: initial_state_def)

section \<open>Moving a group\<close>

text \<open>
  Claim C4 fails for floating end points. Moving the group by \<open>(10, 20)\<close> puts its children
  at \<open>(10, 20)\<close> and \<open>(60, 20)\<close>. The grouped connector has no anchor at either end; its
  end points are stored in \<^verbatim>\<open>startX, startY, endX, endY\<close>, which \<^verbatim>\<open>moveGroupChildren\<close> does not
  change, so both still resolve to where they were.
\<close>

theorem group_move_leaves_floating_endpoints:
  "map (\<lambda>ob. (o_id ob, o_x ob, o_y ob)) (objects (moveGroupChildren group_g 10 20 grouped_scene))
     = [(''O1'', 10, 20), (''O2'', 60, 20), (''G'', 0, 0)] \<and>
   present (c_startAnchor floating_line) = None \<and>
   present (c_endAnchor floating_line) = None \<and>
   resolveConnectorPoint grouped_scene floating_line ''start'' = \<lparr>pt_x = 0, pt_y = 100\<rparr> \<and>
   connectors (moveGroupChildren group_g 10 20 grouped_scene) = [floating_line] \<and>
   resolveConnectorPoint (moveGroupChildren group_g 10 20 grouped_scene) floating_line ''start''
     = \<lparr>pt_x = 0, pt_y = 100\<rparr> \<and>
   resolveConnectorPoint (moveGroupChildren group_g 10 20 grouped_scene) floating_line ''end''
     = \<lparr>pt_x = 90, pt_y = 100\<rparr>"
  by (simp add: moveGroupChildren_def grouped_scene_def group_g_def child_o1_def child_o2_def
      floating_line_def initial_state_def list_or_empty_def move_connector_def present_def
      resolveConnectorPoint_def num_add_def)

section \<open>Undo and redo of a whole history\<close>

lemma find_key_distinct:
  "distinct (map f xs) \<Longrightarrow> x \<in> set xs \<Longrightarrow> find (\<lambda>y. f y = f x) xs = Some x"
  by (induction xs) (auto simp: image_iff)

lemma find_key_mset:
  assumes "distinct (map f xs)" and "mset xs = mset ys"
  shows "find (\<lambda>x. f x = i) xs = find (\<lambda>x. f x = i) ys"
proof -
  from assms(2) have "mset (map f xs) = mset (map f ys)" by simp
  with assms(1) have dy: "distinct (map f ys)" by (metis mset_eq_imp_distinct_iff)
  from assms(2) have se: "set xs = set ys" by (rule mset_eq_setD)
  show ?thesis
  proof (cases "\<exists>x \<in> set xs. f x = i")
    case True
    then obtain x where x: "x \<in> set xs" "f x = i" by blast
    from find_key_distinct [OF assms(1) x(1)] find_key_distinct [OF dy] x se
    show ?thesis by auto
  next
    case False
    with se have "find (\<lambda>x. f x = i) xs = None" "find (\<lambda>x. f x = i) ys = None"
      by (simp_all add: find_None_iff)
    then show ?thesis by simp
  qed
qed

lemma update_first_none: "find P xs = None \<Longrightarrow> update_first P g xs = xs"
  by (induction xs) (auto split: if_splits)

lemma update_first_fixed: "find P xs = Some x \<Longrightarrow> g x = x \<Longrightarrow> update_first P g xs = xs"
  by (induction xs) (auto split: if_splits)

lemma update_first_twice:
  "(\<And>x. P x \<Longrightarrow> P (f x)) \<Longrightarrow>
   update_first P g (update_first P f xs) = update_first P (\<lambda>x. g (f x)) xs"
  by (induction xs) auto

lemma mset_update_first:
  "find P xs = Some x \<Longrightarrow> mset (update_first P g xs) = add_mset (g x) (mset xs - {#x#})"
proof (induction xs)
  case Nil then show ?case by simp
next
  case (Cons a xs)
  show ?case
  proof (cases "P a")
    case True with Cons.prems show ?thesis by simp
  next
    case False
    with Cons.prems have f: "find P xs = Some x" by simp
    then have "x \<in> set xs" by (auto simp: find_Some_iff)
    with Cons.IH [OF f] False show ?thesis by (cases "a = x") (auto simp: insert_DiffM)
  qed
qed

lemma map_key_update_first:
  "(\<And>x. P x \<Longrightarrow> f (g x) = f x) \<Longrightarrow> map f (update_first P g xs) = map f xs"
  by (induction xs) auto

lemma filter_mset_absent: "i \<notin> f ` set_mset M \<Longrightarrow> filter_mset (\<lambda>y. f y \<noteq> i) M = M"
  by (induction M) auto

lemma filter_key_distinct:
  "distinct (map f xs) \<Longrightarrow> find (\<lambda>x. f x = i) xs = Some x \<Longrightarrow>
   add_mset x (filter_mset (\<lambda>y. f y \<noteq> i) (mset xs)) = mset xs"
  by (induction xs) (auto simp: image_iff filter_mset_absent split: if_splits)

lemma find_append_new:
  "i \<notin> f ` set xs \<Longrightarrow> f x = i \<Longrightarrow> find (\<lambda>y. f y = i) (xs @ [x]) = Some x"
  by (induction xs) auto

lemma filter_append_new:
  "i \<notin> f ` set xs \<Longrightarrow> f x = i \<Longrightarrow> filter (\<lambda>y. f y \<noteq> i) (xs @ [x]) = xs"
  by (induction xs) auto

lemma mset_update_first_case:
  "mset (update_first P g xs) =
     (case find P xs of None \<Rightarrow> mset xs | Some x \<Rightarrow> add_mset (g x) (mset xs - {#x#}))"
  by (cases "find P xs") (simp_all add: update_first_none mset_update_first)

lemma restore_same_entities:
  assumes "ids_distinct a" and "same_entities a b"
  shows "same_entities (fst (restore d a)) (fst (restore d b))"
proof -
  from assms have fo: "\<And>i. find (\<lambda>ob. o_id ob = i) (objects b) = find (\<lambda>ob. o_id ob = i) (objects a)"
    and fc: "\<And>i. find (\<lambda>c. c_id c = i) (connectors b) = find (\<lambda>c. c_id c = i) (connectors a)"
    by (simp_all add: ids_distinct_def same_entities_def find_key_mset)
  from assms(2) show ?thesis
    by (cases d)
       (simp_all add: same_entities_def publish_defs fo fc Let_def mset_update_first_case
             split: option.splits)
qed

lemma executeRedo_same_entities:
  assumes "ids_distinct a" and "same_entities a b"
  shows "same_entities (fst (executeRedo r a)) (fst (executeRedo r b))"
proof -
  from assms have fo: "\<And>i. find (\<lambda>ob. o_id ob = i) (objects b) = find (\<lambda>ob. o_id ob = i) (objects a)"
    and fc: "\<And>i. find (\<lambda>c. c_id c = i) (connectors b) = find (\<lambda>c. c_id c = i) (connectors a)"
    and fs: "\<And>i. find (\<lambda>st. s_id st = i) (strokes b) = find (\<lambda>st. s_id st = i) (strokes a)"
    by (simp_all add: ids_distinct_def same_entities_def find_key_mset)
  show ?thesis
  proof (cases r)
    case (R_restore d)
    from restore_same_entities [OF assms, of d] show ?thesis
      by (auto simp: R_restore split: prod.splits)
  qed (use assms(2) in \<open>simp_all add: same_entities_def publish_defs fo fc fs Let_def
             split: option.splits\<close>)
qed

lemma executeRedo_frame:
  "ids_distinct a \<Longrightarrow> objects b = objects a \<Longrightarrow> strokes b = strokes a \<Longrightarrow>
   connectors b = connectors a \<Longrightarrow>
   same_entities (fst (executeRedo r b)) (fst (executeRedo r a))"
proof -
  assume d: "ids_distinct a" and e: "objects b = objects a" "strokes b = strokes a"
     "connectors b = connectors a"
  then have "ids_distinct b" "same_entities b a"
    by (simp_all add: ids_distinct_def same_entities_def)
  then show ?thesis by (rule executeRedo_same_entities)
qed

lemma same_entities_trans:
  "same_entities a b \<Longrightarrow> same_entities b c \<Longrightarrow> same_entities a c"
  by (simp add: same_entities_def)

lemma same_entities_sym: "same_entities a b \<Longrightarrow> same_entities b a"
  by (simp add: same_entities_def)

lemma same_entities_distinct: "same_entities a b \<Longrightarrow> ids_distinct a \<Longrightarrow> ids_distinct b"
proof -
  assume s: "same_entities a b" and d: "ids_distinct a"
  from s have "mset (map o_id (objects a)) = mset (map o_id (objects b))"
    "mset (map s_id (strokes a)) = mset (map s_id (strokes b))"
    "mset (map c_id (connectors a)) = mset (map c_id (connectors b))"
    by (simp_all add: same_entities_def)
  with d show ?thesis
    unfolding ids_distinct_def by (metis mset_eq_imp_distinct_iff)
qed

lemma assigned_simps [simp]:
  "assigned c None = c" "assigned c (Some v) = v"
  "assigned_opt d None = d" "assigned_opt d (Some w) = Some w"
  by (simp_all add: assigned_def assigned_opt_def)

lemma assigned_opt_back: "keeps_optional r c \<Longrightarrow> assigned_opt (assigned_opt c r) c = c"
  by (cases r; cases c; simp add: keeps_optional_def)

lemma assign_connector_back:
  "cp_id p = c_id conn \<Longrightarrow>
   keeps_optional (cp_startAnchor p) (c_startAnchor conn) \<Longrightarrow>
   keeps_optional (cp_endAnchor p) (c_endAnchor conn) \<Longrightarrow>
   keeps_optional (cp_startPoint p) (c_startPoint conn) \<Longrightarrow>
   keeps_optional (cp_endPoint p) (c_endPoint conn) \<Longrightarrow>
   keeps_optional (cp_waypoints p) (c_waypoints conn) \<Longrightarrow>
   keeps_optional (cp_controlPoint1 p) (c_controlPoint1 conn) \<Longrightarrow>
   keeps_optional (cp_controlPoint2 p) (c_controlPoint2 conn) \<Longrightarrow>
   keeps_optional (cp_label p) (c_label conn) \<Longrightarrow>
   keeps_optional (cp_labelPosition p) (c_labelPosition conn) \<Longrightarrow>
   keeps_optional (cp_zIndex p) (c_zIndex conn) \<Longrightarrow>
   assign_connector (assign_connector conn p) (connector_as_patch conn) = conn"
  by (simp add: assign_connector_def connector_as_patch_def assigned_opt_back)

lemma find_key_id: "find (\<lambda>y. k y = i) xs = Some x \<Longrightarrow> k x = i"
  by (auto simp: find_Some_iff)

lemma update_back:
  assumes "find (\<lambda>y. k y = i) xs = Some x" and "\<And>y. k (f y) = k y" and "g (f x) = x"
  shows "find (\<lambda>y. k y = i) (update_first (\<lambda>y. k y = i) f xs) = Some (f x)"
    and "update_first (\<lambda>y. k y = i) g (update_first (\<lambda>y. k y = i) f xs) = xs"
proof -
  show "find (\<lambda>y. k y = i) (update_first (\<lambda>y. k y = i) f xs) = Some (f x)"
    using assms(1,2) by (simp add: find_update_first)
  have "update_first (\<lambda>y. k y = i) g (update_first (\<lambda>y. k y = i) f xs) =
        update_first (\<lambda>y. k y = i) (\<lambda>y. g (f y)) xs"
    using assms(2) by (simp add: update_first_twice)
  also have "\<dots> = xs" using assms(1,3) by (simp add: update_first_fixed)
  finally show "update_first (\<lambda>y. k y = i) g (update_first (\<lambda>y. k y = i) f xs) = xs" .
qed

lemma restore_failed: "restore d s = (s', None) \<Longrightarrow> s' = s"
  by (cases d) (auto simp: Let_def split: option.splits)

lemma assign_connector_id: "c_id (assign_connector c p) = cp_id p"
  by (simp add: assign_connector_def)

lemma restore_ids:
  "restore_ready d s \<Longrightarrow> restore d s = (s', r) \<Longrightarrow>
   map o_id (objects s') = map o_id (objects s) \<and> map c_id (connectors s') = map c_id (connectors s) \<and>
   strokes s' = strokes s"
proof (cases d)
  case (Connector_update_data i p)
  assume a: "restore_ready d s" "restore d s = (s', r)"
  show ?thesis
  proof (cases "find (\<lambda>c. c_id c = i) (connectors s)")
    case None
    with a Connector_update_data show ?thesis by simp
  next
    case (Some conn)
    with a Connector_update_data have pi: "cp_id p = i" by simp
    have "map c_id (update_first (\<lambda>c. c_id c = i) (\<lambda>c. assign_connector c p) (connectors s)) =
          map c_id (connectors s)"
      by (rule map_key_update_first) (simp add: assign_connector_id pi)
    with a Some Connector_update_data show ?thesis
      by (auto simp: Let_def publish_defs)
  qed
qed (auto simp: Let_def publish_defs map_key_update_first split: option.splits)

lemma restore_roundtrip:
  assumes "restore_ready d s" and "restore d s = (s', Some d')"
  shows "scene (fst (restore d' s')) = scene s"
proof (cases d)
  case (Move_data i px py)
  with assms(2) obtain obj where f0: "find (\<lambda>ob. o_id ob = i) (objects s) = Some obj"
    by (auto split: option.splits)
  have i: "i = o_id obj" using find_key_id [OF f0] by simp
  from f0 have f: "find (\<lambda>ob. o_id ob = o_id obj) (objects s) = Some obj" by (simp add: i)
  note b = update_back [OF f, where f = "\<lambda>ob. ob\<lparr>o_x := px, o_y := py\<rparr>"
                              and g = "\<lambda>ob. ob\<lparr>o_x := o_x obj, o_y := o_y obj\<rparr>"]
  from assms(2) f show ?thesis unfolding Move_data i
    by (auto simp: Let_def publish_defs scene_def b)
next
  case (Resize_data i px py pw ph)
  with assms(2) obtain obj where f0: "find (\<lambda>ob. o_id ob = i) (objects s) = Some obj"
    by (auto split: option.splits)
  have i: "i = o_id obj" using find_key_id [OF f0] by simp
  from f0 have f: "find (\<lambda>ob. o_id ob = o_id obj) (objects s) = Some obj" by (simp add: i)
  note b = update_back [OF f, where f = "\<lambda>ob. ob\<lparr>o_x := px, o_y := py, o_width := pw, o_height := ph\<rparr>"
             and g = "\<lambda>ob. ob\<lparr>o_x := o_x obj, o_y := o_y obj, o_width := o_width obj, o_height := o_height obj\<rparr>"]
  from assms(2) f show ?thesis unfolding Resize_data i
    by (auto simp: Let_def publish_defs scene_def b)
next
  case (Style_data i pc pb pa po pf)
  with assms(2) obtain obj where f0: "find (\<lambda>ob. o_id ob = i) (objects s) = Some obj"
    by (auto split: option.splits)
  have i: "i = o_id obj" using find_key_id [OF f0] by simp
  from f0 have f: "find (\<lambda>ob. o_id ob = o_id obj) (objects s) = Some obj" by (simp add: i)
  from assms(1) f0 Style_data have k: "keeps_optional pc (o_color obj)"
    "keeps_optional pb (o_borderColor obj)" "keeps_optional pa (o_textAlign obj)"
    "keeps_optional po (o_textOverflow obj)" "keeps_optional pf (o_fontSize obj)"
    by simp_all
  note b = update_back [OF f,
     where f = "\<lambda>ob. ob\<lparr>o_color := assigned_opt (o_color ob) pc,
                 o_borderColor := assigned_opt (o_borderColor ob) pb,
                 o_textAlign := assigned_opt (o_textAlign ob) pa,
                 o_textOverflow := assigned_opt (o_textOverflow ob) po,
                 o_fontSize := assigned_opt (o_fontSize ob) pf\<rparr>"
      and g = "\<lambda>ob. ob\<lparr>o_color := assigned_opt (o_color ob) (o_color obj),
                 o_borderColor := assigned_opt (o_borderColor ob) (o_borderColor obj),
                 o_textAlign := assigned_opt (o_textAlign ob) (o_textAlign obj),
                 o_textOverflow := assigned_opt (o_textOverflow ob) (o_textOverflow obj),
                 o_fontSize := assigned_opt (o_fontSize ob) (o_fontSize obj)\<rparr>"]
  from assms(2) f k show ?thesis unfolding Style_data i
    by (auto simp: Let_def publish_defs scene_def b assigned_opt_back)
next
  case (Text_data i pt)
  with assms(2) obtain obj where f0: "find (\<lambda>ob. o_id ob = i) (objects s) = Some obj"
    by (auto split: option.splits)
  have i: "i = o_id obj" using find_key_id [OF f0] by simp
  from f0 have f: "find (\<lambda>ob. o_id ob = o_id obj) (objects s) = Some obj" by (simp add: i)
  note b = update_back [OF f, where f = "\<lambda>ob. ob\<lparr>o_text := pt\<rparr>"
                              and g = "\<lambda>ob. ob\<lparr>o_text := o_text obj\<rparr>"]
  from assms(2) f show ?thesis unfolding Text_data i
    by (auto simp: Let_def publish_defs scene_def b)
next
  case (Connector_update_data i p)
  with assms(2) obtain conn where f: "find (\<lambda>c. c_id c = i) (connectors s) = Some conn"
    by (auto split: option.splits)
  from assms(1) f Connector_update_data find_key_id [OF f]
  have undone: "assign_connector (assign_connector conn p) (connector_as_patch conn) = conn"
    and pi: "cp_id p = i"
    by (simp_all add: assign_connector_back)
  have keep: "\<And>y. c_id y = i \<Longrightarrow> c_id (assign_connector y p) = i"
    using pi by (simp add: assign_connector_def)
  have f2: "find (\<lambda>c. c_id c = i) (update_first (\<lambda>c. c_id c = i) (\<lambda>c. assign_connector c p) (connectors s))
            = Some (assign_connector conn p)"
    using f keep by (simp add: find_update_first)
  have "update_first (\<lambda>c. c_id c = i) (\<lambda>c. assign_connector c (connector_as_patch conn))
          (update_first (\<lambda>c. c_id c = i) (\<lambda>c. assign_connector c p) (connectors s)) =
        update_first (\<lambda>c. c_id c = i)
          (\<lambda>c. assign_connector (assign_connector c p) (connector_as_patch conn)) (connectors s)"
    using keep by (simp add: update_first_twice)
  also have "\<dots> = connectors s" using f undone by (simp add: update_first_fixed)
  finally have u2: "update_first (\<lambda>c. c_id c = i) (\<lambda>c. assign_connector c (connector_as_patch conn))
          (update_first (\<lambda>c. c_id c = i) (\<lambda>c. assign_connector c p) (connectors s)) = connectors s" .
  have ci: "c_id (assign_connector conn p) = i" using pi by (simp add: assign_connector_def)
  from assms(2) f show ?thesis unfolding Connector_update_data
    by (auto simp: Let_def publish_defs scene_def f2 u2 ci)
qed

lemma filter_mset_absent_list:
  "i \<notin> f ` set xs \<Longrightarrow> filter_mset (\<lambda>y. f y \<noteq> i) (mset xs) = mset xs"
  by (simp add: filter_mset_absent)

lemma filter_key_distinct_found:
  "distinct (map f xs) \<Longrightarrow> find (\<lambda>x. f x = i) xs = Some x \<Longrightarrow>
   add_mset x (filter_mset (\<lambda>y. f y \<noteq> f x) (mset xs)) = mset xs"
  using filter_key_distinct [of f xs i x] find_key_id [of f i xs x] by simp

lemma deselect_scene [simp]:
  "objects (deselectObject i s) = objects s" "strokes (deselectObject i s) = strokes s"
  "connectors (deselectObject i s) = connectors s"
  "objects (deselectConnector i s) = objects s" "strokes (deselectConnector i s) = strokes s"
  "connectors (deselectConnector i s) = connectors s"
  by (simp_all add: deselectObject_def deselectConnector_def split: option.splits)

lemma publish_scene [simp]:
  "objects (publish e s) = objects s" "strokes (publish e s) = strokes s"
  "connectors (publish e s) = connectors s"
  by (simp_all add: publish_def)

lemmas publish_kinds = publishObjectAdd_def publishObjectDelete_def
  publishStroke_def publishStrokeDelete_def publishConnectorAdd_def publishConnectorDelete_def
  publishGroupCreate_def publishGroupUngroup_def publishObjectMove_def publishObjectResize_def
  publishObjectStyle_def publishObjectUpdate_def publishConnectorUpdate_def

lemma executeUndo_roundtrip:
  assumes "ids_distinct s" and "undo_ready a s" and "executeUndo a s = (s', r)"
  shows "ids_distinct s' \<and>
         (case r of None \<Rightarrow> scene s' = scene s
                  | Some rd \<Rightarrow> same_entities (fst (executeRedo rd s')) s)"
proof (cases a)
  case (U_restore d)
  from assms(3) U_restore obtain rr where rs: "restore d s = (s', rr)" and r: "r = map_option R_restore rr"
    by (auto split: prod.splits)
  from assms(2) U_restore have rdy: "restore_ready d s" by simp
  from restore_ids [OF rdy rs] assms(1) have d': "ids_distinct s'"
    by (simp add: ids_distinct_def)
  show ?thesis
  proof (cases rr)
    case None
    with rs restore_failed [of d s s'] r d' show ?thesis by simp
  next
    case (Some d')
    from restore_roundtrip [OF rdy rs [unfolded Some]] r Some d' show ?thesis
      by (auto simp: same_entities_def scene_def split: prod.splits)
  qed
qed (use assms in \<open>auto simp: ids_distinct_def same_entities_def scene_def publish_kinds Let_def
        distinct_map_filter filter_key_distinct filter_key_distinct_found find_append_new
        filter_append_new filter_mset_absent_list
        split: option.splits dest: find_key_id\<close>)

lemma restore_ready_frame: "restore_ready d (s\<lparr>undoStack := u\<rparr>) = restore_ready d s"
  by (cases d) simp_all

lemma undo_ready_frame: "undo_ready act (s\<lparr>undoStack := u\<rparr>) = undo_ready act s"
  by (cases act) (simp_all add: restore_ready_frame)

lemma undo_step:
  assumes "ids_distinct s" and "undoStack s \<noteq> []"
    and "undo_ready (u_action (last (undoStack s))) s"
  shows "ids_distinct (undo t s) \<and>
         ((scene (undo t s) = scene s \<and> redoStack (undo t s) = redoStack s) \<or>
          (\<exists>e. redoStack (undo t s) = redoStack s @ [e] \<and>
               same_entities (fst (executeRedo (r_action e) (undo t s))) s))"
proof -
  let ?s1 = "s\<lparr>undoStack := butlast (undoStack s)\<rparr>"
  let ?a = "u_action (last (undoStack s))"
  obtain s' r where e: "executeUndo ?a ?s1 = (s', r)" by (cases "executeUndo ?a ?s1")
  have d1: "ids_distinct ?s1" using assms(1) by (simp add: ids_distinct_def)
  have r1: "undo_ready ?a ?s1" using assms(3) by (simp add: undo_ready_frame)
  from executeUndo_roundtrip [OF d1 r1 e]
  have d': "ids_distinct s'"
    and rt: "case r of None \<Rightarrow> scene s' = scene ?s1
                     | Some rd \<Rightarrow> same_entities (fst (executeRedo rd s')) ?s1"
    by simp_all
  from executeUndo_stacks [OF e] have st: "redoStack s' = redoStack s" by simp
  show ?thesis
  proof (cases r)
    case None
    with e assms(2) have u: "undo t s = s'" by (simp add: undo_def Let_def)
    from rt None d' st show ?thesis unfolding u by (simp add: scene_def)
  next
    case (Some rd)
    let ?e = "\<lparr>r_action = rd, r_timestamp = t\<rparr>"
    from Some e assms(2) have u: "undo t s = s'\<lparr>redoStack := redoStack s' @ [?e]\<rparr>"
      by (simp add: undo_def Let_def)
    have fr: "same_entities (fst (executeRedo rd (s'\<lparr>redoStack := redoStack s' @ [?e]\<rparr>)))
                            (fst (executeRedo rd s'))"
      by (rule executeRedo_frame [OF d']) simp_all
    from rt Some have "same_entities (fst (executeRedo rd s')) s"
      by (simp add: same_entities_def)
    with fr have "same_entities (fst (executeRedo rd (s'\<lparr>redoStack := redoStack s' @ [?e]\<rparr>))) s"
      by (rule same_entities_trans)
    moreover have "ids_distinct (s'\<lparr>redoStack := redoStack s' @ [?e]\<rparr>)"
      using d' by (simp add: ids_distinct_def)
    ultimately show ?thesis unfolding u using st by simp
  qed
qed

lemma redo_same_entities:
  assumes "ids_distinct a" and "same_entities a b" and "redoStack a = redoStack b"
  shows "same_entities (redo t a) (redo t b) \<and> redoStack (redo t a) = redoStack (redo t b)"
proof (cases "redoStack a = []")
  case True
  with assms show ?thesis by (simp add: redo_def)
next
  case False
  let ?r = "r_action (last (redoStack a))"
  let ?a1 = "a\<lparr>redoStack := butlast (redoStack a)\<rparr>"
  let ?b1 = "b\<lparr>redoStack := butlast (redoStack a)\<rparr>"
  obtain a' ra where ea: "executeRedo ?r ?a1 = (a', ra)" by (cases "executeRedo ?r ?a1")
  obtain b' rb where eb: "executeRedo ?r ?b1 = (b', rb)" by (cases "executeRedo ?r ?b1")
  have "ids_distinct ?a1" "same_entities ?a1 ?b1"
    using assms(1,2) by (simp_all add: ids_distinct_def same_entities_def)
  from executeRedo_same_entities [OF this, of ?r] ea eb
  have se: "same_entities a' b'" by simp
  from executeRedo_stacks [OF ea] executeRedo_stacks [OF eb]
  have st: "redoStack a' = redoStack b'" by simp
  have ra: "same_entities (redo t a) a' \<and> redoStack (redo t a) = redoStack a'"
    using False ea by (cases ra) (simp_all add: redo_def Let_def same_entities_def)
  have rb: "same_entities b' (redo t b) \<and> redoStack (redo t b) = redoStack b'"
    using False eb assms(3) by (cases rb) (simp_all add: redo_def Let_def same_entities_def)
  from ra se rb st show ?thesis by (auto intro: same_entities_trans)
qed

lemma undo_then_redo:
  assumes "ids_distinct s" and "undoStack s \<noteq> []"
    and "undo_ready (u_action (last (undoStack s))) s"
  shows "ids_distinct (undo t s) \<and>
         ((same_entities (undo t s) s \<and> redoStack (undo t s) = redoStack s) \<or>
          (length (redoStack (undo t s)) = Suc (length (redoStack s)) \<and>
           same_entities (redo t' (undo t s)) s \<and> redoStack (redo t' (undo t s)) = redoStack s))"
proof -
  from undo_step [OF assms, of t]
  have d: "ids_distinct (undo t s)"
    and alt: "(scene (undo t s) = scene s \<and> redoStack (undo t s) = redoStack s) \<or>
          (\<exists>e. redoStack (undo t s) = redoStack s @ [e] \<and>
               same_entities (fst (executeRedo (r_action e) (undo t s))) s)"
    by simp_all
  from alt show ?thesis
  proof
    assume "scene (undo t s) = scene s \<and> redoStack (undo t s) = redoStack s"
    with d show ?thesis by (simp add: scene_def same_entities_def)
  next
    assume "\<exists>e. redoStack (undo t s) = redoStack s @ [e] \<and>
               same_entities (fst (executeRedo (r_action e) (undo t s))) s"
    then obtain e where rs: "redoStack (undo t s) = redoStack s @ [e]"
      and se: "same_entities (fst (executeRedo (r_action e) (undo t s))) s" by blast
    let ?u = "undo t s"
    let ?u1 = "?u\<lparr>redoStack := butlast (redoStack ?u)\<rparr>"
    obtain u' r where eu: "executeRedo (r_action e) ?u1 = (u', r)"
      by (cases "executeRedo (r_action e) ?u1")
    have "same_entities (fst (executeRedo (r_action e) ?u1)) (fst (executeRedo (r_action e) ?u))"
      by (rule executeRedo_frame [OF d]) simp_all
    with se eu have su: "same_entities u' s" by (auto intro: same_entities_trans)
    from executeRedo_stacks [OF eu] rs have st: "redoStack u' = redoStack s" by simp
    have "same_entities (redo t' ?u) u' \<and> redoStack (redo t' ?u) = redoStack u'"
      using rs eu by (cases r) (simp_all add: redo_def Let_def same_entities_def)
    with su st d rs show ?thesis by (auto intro: same_entities_trans)
  qed
qed

lemma redo_empty: "redoStack s = [] \<Longrightarrow> fold redo ts s = s"
  by (induction ts) (simp_all add: redo_def)

lemma length_Suc_snoc: "length xs = Suc k \<Longrightarrow> \<exists>ys y. xs = ys @ [y] \<and> length ys = k"
  by (cases xs rule: rev_cases) simp_all

text \<open>
  Claim C2 as stated fails. A note is added locally and recorded, then a peer's rectangle
  arrives: the objects are the note and the rectangle, in this order, and the undo stack
  holds the one recorded action. Undoing it removes the note and redoing it appends the note
  after the rectangle, so the Scene is not equal to the Scene before the undo.
\<close>

theorem undo_redo_order_counterexample:
  "objects note_then_remote_rect = [own_note, rect2] \<and>
   map u_action (undoStack note_then_remote_rect) = [U_object_add ''u2-5-e''] \<and>
   redoStack note_then_remote_rect = [] \<and>
   objects (redo 3 (undo 2 note_then_remote_rect)) = [rect2, own_note] \<and>
   scene (redo 3 (undo 2 note_then_remote_rect)) \<noteq> scene note_then_remote_rect"
proof -
  have v: "note_then_remote_rect =
             (initial_state None)\<lparr>objects := [own_note, rect2],
                undoStack := [\<lparr>u_action = U_object_add ''u2-5-e'', u_timestamp = 1\<rparr>]\<rparr>"
    by (simp add: note_then_remote_rect_def handlePlatformEvent_def add_rect2_def canvasId_def
        initial_state_def recordAction_def handleRemoteObjectAdd_def own_note_def rect2_def)
  have b: "objects (redo 3 (undo 2 note_then_remote_rect)) = [rect2, own_note]"
    unfolding v
    by (simp add: undo_def redo_def initial_state_def Let_def publish_kinds publish_def
        deselectObject_def own_note_def rect2_def)
  have "own_note \<noteq> rect2" by (simp add: own_note_def rect2_def)
  with b show ?thesis by (simp add: scene_def v initial_state_def)
qed

lemma map_filter_key: "map f (filter (\<lambda>x. f x \<noteq> i) xs) = filter (\<lambda>j. j \<noteq> i) (map f xs)"
  by (induction xs) auto

lemma find_none_filter_ids:
  "find (\<lambda>x. f x = i) xs = None \<Longrightarrow> filter (\<lambda>j. j \<noteq> i) (map f xs) = map f xs"
  by (induction xs) (auto split: if_splits)

lemma restore_keeps_ids_any:
  assumes "restore_ready d s" and "restore d s = (s', Some d')"
  shows "entity_ids (fst (restore d' v)) = entity_ids v"
proof (cases d)
  case (Connector_update_data i p)
  with assms(2) obtain conn where f: "find (\<lambda>c. c_id c = i) (connectors s) = Some conn"
    by (auto split: option.splits)
  from assms(1) f Connector_update_data find_key_id [OF f]
  have pi: "cp_id p = i" and ci: "c_id conn = i" by simp_all
  from assms(2) f Connector_update_data pi
  have d': "d' = Connector_update_data i (connector_as_patch conn)"
    by (auto simp: Let_def assign_connector_id)
  have "map c_id (update_first (\<lambda>c. c_id c = i)
          (\<lambda>c. assign_connector c (connector_as_patch conn)) (connectors v)) = map c_id (connectors v)"
    by (rule map_key_update_first) (simp add: assign_connector_id connector_as_patch_def ci)
  then show ?thesis unfolding d'
    by (cases "find (\<lambda>c. c_id c = i) (connectors v)")
       (simp_all add: entity_ids_def Let_def publish_kinds)
qed (use assms(2) in \<open>auto simp: entity_ids_def Let_def publish_kinds map_key_update_first
       split: option.splits\<close>)

lemma executeUndo_ids:
  assumes "undo_ready a s" and "executeUndo a s = (s', r)"
  shows "(case r of
            None \<Rightarrow> entity_ids s' = entity_ids s
          | Some rd \<Rightarrow> entity_ids s' = undo_ids a (entity_ids s) \<and>
                       (\<forall>v. entity_ids (fst (executeRedo rd v)) = redo_ids a (entity_ids v)))"
proof (cases a)
  case (U_restore d)
  from assms(2) U_restore obtain rr where rs: "restore d s = (s', rr)" and r: "r = map_option R_restore rr"
    by (auto split: prod.splits)
  from assms(1) U_restore have rdy: "restore_ready d s" by simp
  show ?thesis
  proof (cases rr)
    case None
    with rs restore_failed [of d s s'] r show ?thesis by simp
  next
    case (Some d')
    from restore_ids [OF rdy rs] have "entity_ids s' = entity_ids s" by (simp add: entity_ids_def)
    moreover have "entity_ids (fst (executeRedo (R_restore d') v)) = entity_ids v" for v
      using restore_keeps_ids_any [OF rdy rs [unfolded Some], of v]
      by (cases "restore d' v") simp
    ultimately show ?thesis using r Some U_restore by simp
  qed
qed (use assms in \<open>auto simp: entity_ids_def publish_kinds Let_def map_filter_key
        find_none_filter_ids split: option.splits dest: find_key_id\<close>)

lemma kept_append: "kept pb (xs @ ys) = kept pb xs @ kept pb ys"
  by (simp add: kept_def)

lemma kept_filter: "kept pb (filter P xs) = filter P (kept pb xs)"
  by (induction xs) (auto simp: kept_def)

lemma kept_cons_filter: "kept (z # pb) xs = kept pb (filter (\<lambda>j. j \<noteq> z) xs)"
  by (induction xs) (auto simp: kept_def)

lemma filter_absent_id: "z \<notin> set xs \<Longrightarrow> filter (\<lambda>j. j \<noteq> z) xs = xs"
  by (induction xs) auto

lemma add_roundtrip_ids:
  assumes "distinct os" and "i \<in> set os" and "removes_last po i os"
    and "kept po v = kept po (filter (\<lambda>j. j \<noteq> i) os)"
  shows "kept po (v @ [i]) = kept po os"
proof (cases "i \<in> set po")
  case True
  then have "kept po [i] = []" by (simp add: kept_def)
  moreover from True have "i \<notin> set (kept po os)" by (simp add: kept_def)
  then have "filter (\<lambda>j. j \<noteq> i) (kept po os) = kept po os" by (rule filter_absent_id)
  ultimately show ?thesis using assms(4) by (simp add: kept_append kept_filter)
next
  case False
  with assms(2,3) have ne: "kept po os \<noteq> []" and l: "last (kept po os) = i"
    by (simp_all add: removes_last_def)
  from ne l have sp: "kept po os = butlast (kept po os) @ [i]"
    by (metis append_butlast_last_id)
  from assms(1) have "distinct (kept po os)" by (simp add: kept_def)
  with sp have "i \<notin> set (butlast (kept po os))"
    by (metis distinct_append disjoint_iff list.set_intros(1))
  then have "filter (\<lambda>j. j \<noteq> i) (butlast (kept po os)) = butlast (kept po os)"
    by (rule filter_absent_id)
  then have "filter (\<lambda>j. j \<noteq> i) (kept po os) = butlast (kept po os)"
    by (subst sp) simp
  moreover from False have "kept po [i] = [i]" by (simp add: kept_def)
  ultimately show ?thesis using assms(4) sp by (simp add: kept_append kept_filter)
qed

lemma delete_roundtrip_ids:
  assumes "z \<notin> set os" and "kept (z # po) v = kept (z # po) (os @ [z])"
  shows "kept po (filter (\<lambda>j. j \<noteq> z) v) = kept po os"
proof -
  have "kept po (filter (\<lambda>j. j \<noteq> z) v) = kept (z # po) v" by (simp add: kept_cons_filter)
  also have "\<dots> = kept (z # po) (os @ [z])" by (rule assms(2))
  also have "\<dots> = kept po (filter (\<lambda>j. j \<noteq> z) (os @ [z]))" by (simp add: kept_cons_filter)
  also have "\<dots> = kept po os" using assms(1) by (simp add: filter_absent_id)
  finally show ?thesis .
qed

lemma kept_roundtrip:
  assumes "distinct3 ids" and "target_present a ids" and "put_back_fresh a ids"
    and "step_exact pb a ids"
    and "kept3 (put_back_after a pb) v = kept3 (put_back_after a pb) (undo_ids a ids)"
  shows "kept3 pb (redo_ids a v) = kept3 pb ids"
proof -
  obtain os ss cs where ids: "ids = (os, ss, cs)" by (cases ids)
  obtain vo vs vc where v: "v = (vo, vs, vc)" by (cases v)
  obtain po ps pc where pb: "pb = (po, ps, pc)" by (cases pb)
  from assms show ?thesis unfolding ids v pb
    by (cases a)
       (simp_all add: distinct3_def add_roundtrip_ids delete_roundtrip_ids)
qed

lemma executeUndo_outcome:
  assumes "executeUndo a s = (s', r)"
  shows "case r of None \<Rightarrow> (\<forall>pb. put_back_after a pb = pb)
                 | Some rd \<Rightarrow> target_present a (entity_ids s)"
proof -
  have pb: "put_back_after a pb = pb" if "r = None" for pb
    using that assms by (cases a; cases pb) (auto split: option.splits prod.splits)
  have tp: "target_present a (entity_ids s)" if "r \<noteq> None"
    using that assms
    by (cases a) (auto simp: entity_ids_def find_Some_iff split: option.splits)
  from pb tp show ?thesis by (cases r) auto
qed

lemma undo_ready_fresh: "undo_ready a s \<Longrightarrow> put_back_fresh a (entity_ids s)"
  by (cases a) (simp_all add: entity_ids_def)

lemma entity_ids_frame [simp]:
  "entity_ids (s\<lparr>undoStack := u\<rparr>) = entity_ids s"
  "entity_ids (s\<lparr>redoStack := r\<rparr>) = entity_ids s"
  by (simp_all add: entity_ids_def)

lemma undo_ids_step:
  assumes "undoStack s \<noteq> []" and "undo_ready (u_action (last (undoStack s))) s"
  shows "(redoStack (undo t s) = redoStack s \<and> entity_ids (undo t s) = entity_ids s \<and>
          (\<forall>pb. put_back_after (u_action (last (undoStack s))) pb = pb)) \<or>
         (\<exists>e. redoStack (undo t s) = redoStack s @ [e] \<and>
              entity_ids (undo t s) = undo_ids (u_action (last (undoStack s))) (entity_ids s) \<and>
              target_present (u_action (last (undoStack s))) (entity_ids s) \<and>
              (\<forall>v. entity_ids (fst (executeRedo (r_action e) v)) =
                     redo_ids (u_action (last (undoStack s))) (entity_ids v)))"
proof -
  let ?s1 = "s\<lparr>undoStack := butlast (undoStack s)\<rparr>"
  let ?a = "u_action (last (undoStack s))"
  obtain s' r where e: "executeUndo ?a ?s1 = (s', r)" by (cases "executeUndo ?a ?s1")
  have r1: "undo_ready ?a ?s1" using assms(2) by (simp add: undo_ready_frame)
  from executeUndo_stacks [OF e] have st: "redoStack s' = redoStack s" by simp
  note ids = executeUndo_ids [OF r1 e]
  note oc = executeUndo_outcome [OF e]
  show ?thesis
  proof (cases r)
    case None
    with e assms(1) have u: "undo t s = s'" by (simp add: undo_def Let_def)
    from ids oc None st show ?thesis unfolding u by simp
  next
    case (Some rd)
    let ?e = "\<lparr>r_action = rd, r_timestamp = t\<rparr>"
    from Some e assms(1) have u: "undo t s = s'\<lparr>redoStack := redoStack s' @ [?e]\<rparr>"
      by (simp add: undo_def Let_def)
    from ids oc Some st show ?thesis unfolding u
      by (intro disjI2 exI [of _ ?e]) simp
  qed
qed

lemma redo_ids_pop:
  assumes "redoStack v = rs @ [e]"
  shows "entity_ids (redo t v) = entity_ids (fst (executeRedo (r_action e) (v\<lparr>redoStack := rs\<rparr>)))"
proof -
  obtain v' r where ev: "executeRedo (r_action e) (v\<lparr>redoStack := rs\<rparr>) = (v', r)"
    by (cases "executeRedo (r_action e) (v\<lparr>redoStack := rs\<rparr>)")
  with assms show ?thesis by (cases r) (simp_all add: redo_def Let_def)
qed

lemma same_ids_same_list:
  assumes "distinct (map f xs)" and "mset xs = mset ys" and "map f xs = map f ys"
  shows "xs = ys"
proof (rule nth_equalityI)
  from assms(3) show len: "length xs = length ys" by (metis length_map)
  fix n assume n: "n < length xs"
  from assms(2) have se: "set xs = set ys" by (rule mset_eq_setD)
  from n len have "ys ! n \<in> set xs" using se by simp
  moreover from n have "xs ! n \<in> set xs" by simp
  moreover from assms(3) n len have "f (xs ! n) = f (ys ! n)"
    by (metis nth_map)
  moreover from assms(1) have "inj_on f (set xs)" by (simp add: distinct_map)
  ultimately show "xs ! n = ys ! n" by (simp add: inj_on_def)
qed

lemma ids_distinct3: "ids_distinct s \<Longrightarrow> distinct3 (entity_ids s)"
  by (simp add: ids_distinct_def distinct3_def entity_ids_def)

lemma kept3_nothing: "kept3 ([], [], []) ids = ids"
  by (cases ids) (simp add: kept_def)

lemma undo_all_redo_some_ids:
  "ids_distinct s \<Longrightarrow> history_ready tu s \<Longrightarrow>
   \<exists>k \<le> length tu.
     \<forall>tr. length tr = k \<longrightarrow>
       same_entities (fold redo tr (fold undo tu s)) s \<and>
       redoStack (fold redo tr (fold undo tu s)) = redoStack s \<and>
       (\<forall>pb. exact_ready pb tu s \<longrightarrow>
          kept3 pb (entity_ids (fold redo tr (fold undo tu s))) = kept3 pb (entity_ids s))"
proof (induction tu arbitrary: s)
  case Nil
  then show ?case by (simp add: same_entities_def)
next
  case (Cons t tu)
  let ?s1 = "undo t s"
  let ?U = "fold undo tu ?s1"
  let ?a = "u_action (last (undoStack s))"
  from Cons.prems(2) have hr: "history_ready tu ?s1" by simp
  show ?case
  proof (cases "undoStack s = []")
    case True
    then have same: "?s1 = s" by (simp add: undo_def)
    from True have ex: "exact_ready pb (t # tu) s = exact_ready pb tu s" for pb by simp
    from Cons.IH [OF _ hr] Cons.prems(1) same
    obtain k where "k \<le> length tu"
      and "\<forall>tr. length tr = k \<longrightarrow> same_entities (fold redo tr ?U) s \<and>
                 redoStack (fold redo tr ?U) = redoStack s \<and>
                 (\<forall>pb. exact_ready pb tu s \<longrightarrow>
                    kept3 pb (entity_ids (fold redo tr ?U)) = kept3 pb (entity_ids s))"
      by auto
    then show ?thesis using ex by (intro exI [of _ k]) simp
  next
    case False
    with Cons.prems(2) have rdy: "undo_ready ?a s"
      by (cases "undoStack s") simp_all
    from False have ex: "exact_ready pb (t # tu) s =
        (step_exact pb ?a (entity_ids s) \<and> exact_ready (put_back_after ?a pb) tu ?s1)" for pb
      by (cases "undoStack s") simp_all
    from undo_then_redo [OF Cons.prems(1) False rdy, of t]
    have d1: "ids_distinct ?s1"
      and alt: "\<And>t'. (same_entities ?s1 s \<and> redoStack ?s1 = redoStack s) \<or>
          (length (redoStack ?s1) = Suc (length (redoStack s)) \<and>
           same_entities (redo t' ?s1) s \<and> redoStack (redo t' ?s1) = redoStack s)"
      by simp_all
    note ids = undo_ids_step [OF False rdy, of t]
    from Cons.IH [OF d1 hr]
    obtain k where k: "k \<le> length tu"
      and ih: "\<And>tr. length tr = k \<Longrightarrow> same_entities (fold redo tr ?U) ?s1 \<and>
                 redoStack (fold redo tr ?U) = redoStack ?s1 \<and>
                 (\<forall>pb. exact_ready pb tu ?s1 \<longrightarrow>
                    kept3 pb (entity_ids (fold redo tr ?U)) = kept3 pb (entity_ids ?s1))"
      by auto
    show ?thesis
    proof (cases "redoStack ?s1 = redoStack s")
      case True
      with alt [of 0] have se: "same_entities ?s1 s" by auto
      from True ids have same_ids: "entity_ids ?s1 = entity_ids s"
        and pbs: "\<And>pb. put_back_after ?a pb = pb" by auto
      have "same_entities (fold redo tr (fold undo (t # tu) s)) s \<and>
            redoStack (fold redo tr (fold undo (t # tu) s)) = redoStack s \<and>
            (\<forall>pb. exact_ready pb (t # tu) s \<longrightarrow>
               kept3 pb (entity_ids (fold redo tr (fold undo (t # tu) s))) = kept3 pb (entity_ids s))"
        if len: "length tr = k" for tr
        using ih [OF len] se True same_ids pbs ex by (auto intro: same_entities_trans)
      with k show ?thesis by (intro exI [of _ k]) simp
    next
      case False
      with alt have rt: "\<And>t'. same_entities (redo t' ?s1) s \<and> redoStack (redo t' ?s1) = redoStack s"
        by blast
      from False ids obtain e where rs1: "redoStack ?s1 = redoStack s @ [e]"
        and ids1: "entity_ids ?s1 = undo_ids ?a (entity_ids s)"
        and tp: "target_present ?a (entity_ids s)"
        and redone: "\<And>v. entity_ids (fst (executeRedo (r_action e) v)) = redo_ids ?a (entity_ids v)"
        by auto
      have "same_entities (fold redo tr (fold undo (t # tu) s)) s \<and>
            redoStack (fold redo tr (fold undo (t # tu) s)) = redoStack s \<and>
            (\<forall>pb. exact_ready pb (t # tu) s \<longrightarrow>
               kept3 pb (entity_ids (fold redo tr (fold undo (t # tu) s))) = kept3 pb (entity_ids s))"
        if len: "length tr = Suc k" for tr
      proof -
        from length_Suc_snoc [OF len] obtain tr1 t' where tr: "tr = tr1 @ [t']"
          and l1: "length tr1 = k" by blast
        let ?V = "fold redo tr1 ?U"
        from ih [OF l1] have v: "same_entities ?V ?s1" "redoStack ?V = redoStack ?s1"
          by simp_all
        from ih [OF l1] have vk: "\<And>pb. exact_ready pb tu ?s1 \<Longrightarrow>
                     kept3 pb (entity_ids ?V) = kept3 pb (entity_ids ?s1)"
          by blast
        from same_entities_distinct [OF same_entities_sym [OF v(1)] d1]
        have dv: "ids_distinct ?V" .
        from redo_same_entities [OF dv v, of t']
        have "same_entities (redo t' ?V) (redo t' ?s1)"
          "redoStack (redo t' ?V) = redoStack (redo t' ?s1)" by simp_all
        with rt [of t'] have a: "same_entities (redo t' ?V) s \<and> redoStack (redo t' ?V) = redoStack s"
          by (auto intro: same_entities_trans)
        from v(2) rs1 have "redoStack ?V = redoStack s @ [e]" by simp
        from redo_ids_pop [OF this, of t'] redone
        have rv: "entity_ids (redo t' ?V) = redo_ids ?a (entity_ids ?V)" by simp
        have b: "kept3 pb (entity_ids (redo t' ?V)) = kept3 pb (entity_ids s)"
          if x: "exact_ready pb (t # tu) s" for pb
        proof -
          from x ex have se: "step_exact pb ?a (entity_ids s)"
            and er: "exact_ready (put_back_after ?a pb) tu ?s1" by simp_all
          from vk [OF er] ids1
          have "kept3 (put_back_after ?a pb) (entity_ids ?V) =
                kept3 (put_back_after ?a pb) (undo_ids ?a (entity_ids s))" by simp
          from kept_roundtrip [OF ids_distinct3 [OF Cons.prems(1)] tp undo_ready_fresh [OF rdy] se this]
          show ?thesis by (simp add: rv)
        qed
        from a b show ?thesis by (simp add: tr)
      qed
      with k show ?thesis by (intro exI [of _ "Suc k"]) simp
    qed
  qed
qed

text \<open>
  Claim C2, amended. Let the ids be distinct within each array, the redo stack be empty, and
  every undo step be ready in the sense of \<open>history_ready\<close>. Then any number of undos followed
  by as many redos (in particular one undo and one redo for each entry of the undo stack,
  which holds at most 5) leaves each of the three arrays with the same entities, field for
  field, as before the first undo. If moreover every entity that the undo of an add or of a
  group creation removes is at that moment the last of its array, not counting the entities
  that the undos before it have put back (\<open>exact_ready\<close>), the Scene is equal to the Scene
  before the first undo; otherwise an entity that is put back may come later in its array
  than it was.
\<close>

theorem undo_all_redo_all:
  assumes "ids_distinct s" and "redoStack s = []" and "history_ready tu s"
    and "length tr = length tu"
  shows "same_entities (fold redo tr (fold undo tu s)) s \<and>
         (exact_ready ([], [], []) tu s \<longrightarrow> scene (fold redo tr (fold undo tu s)) = scene s)"
proof -
  let ?U = "fold undo tu s"
  from undo_all_redo_some_ids [OF assms(1,3)]
  obtain k where k: "k \<le> length tu"
    and r: "\<And>tr. length tr = k \<Longrightarrow> same_entities (fold redo tr ?U) s \<and>
                 redoStack (fold redo tr ?U) = redoStack s \<and>
                 (\<forall>pb. exact_ready pb tu s \<longrightarrow>
                    kept3 pb (entity_ids (fold redo tr ?U)) = kept3 pb (entity_ids s))"
    by auto
  from k assms(4) have lt: "length (take k tr) = k" by simp
  let ?W = "fold redo (take k tr) ?U"
  from r [OF lt] assms(2)
  have w: "same_entities ?W s" "redoStack ?W = []" by simp_all
  from r [OF lt]
  have "exact_ready ([], [], []) tu s \<longrightarrow>
          kept3 ([], [], []) (entity_ids ?W) = kept3 ([], [], []) (entity_ids s)"
    by blast
  then have wk: "exact_ready ([], [], []) tu s \<Longrightarrow> entity_ids ?W = entity_ids s"
    by (simp add: kept3_nothing)
  have "fold redo tr ?U = fold redo (drop k tr) ?W"
    by (metis append_take_drop_id fold_append comp_apply)
  also have "\<dots> = ?W" by (rule redo_empty [OF w(2)])
  finally have fin: "fold redo tr ?U = ?W" .
  have "scene ?W = scene s" if "exact_ready ([], [], []) tu s"
  proof -
    from wk [OF that] have i: "map o_id (objects ?W) = map o_id (objects s)"
      "map s_id (strokes ?W) = map s_id (strokes s)"
      "map c_id (connectors ?W) = map c_id (connectors s)"
      by (simp_all add: entity_ids_def)
    from w(1) have m: "mset (objects s) = mset (objects ?W)" "mset (strokes s) = mset (strokes ?W)"
      "mset (connectors s) = mset (connectors ?W)" by (simp_all add: same_entities_def)
    from assms(1) have d: "distinct (map o_id (objects s))" "distinct (map s_id (strokes s))"
      "distinct (map c_id (connectors s))" by (simp_all add: ids_distinct_def)
    from same_ids_same_list [OF d(1) m(1) i(1) [symmetric]]
         same_ids_same_list [OF d(2) m(2) i(2) [symmetric]]
         same_ids_same_list [OF d(3) m(3) i(3) [symmetric]]
    show ?thesis by (simp add: scene_def)
  qed
  with w(1) show ?thesis unfolding fin by simp
qed

text \<open>
  The theorem for two histories of three recorded actions (a note added, the note moved, a
  stroke deleted). Where the note is the last object, all hypotheses hold and three undos
  followed by three redos give back the Scene. Where a rectangle comes after the note, the
  entities are the same afterwards and the note has moved behind the rectangle.
\<close>

theorem undo_all_redo_all_witness:
  "ids_distinct plain_history \<and> redoStack plain_history = [] \<and>
   history_ready [10, 11, 12] plain_history \<and>
   exact_ready ([], [], []) [10, 11, 12] plain_history \<and>
   objects (fold undo [10, 11, 12] plain_history) = [rect2] \<and>
   strokes (fold undo [10, 11, 12] plain_history) = [stroke_z7] \<and>
   scene (fold redo [13, 14, 15] (fold undo [10, 11, 12] plain_history)) = scene plain_history \<and>
   ids_distinct three_actions \<and> redoStack three_actions = [] \<and>
   history_ready [10, 11, 12] three_actions \<and>
   same_entities (fold redo [13, 14, 15] (fold undo [10, 11, 12] three_actions)) three_actions \<and>
   objects three_actions = [own_note, rect2] \<and>
   objects (fold redo [13, 14, 15] (fold undo [10, 11, 12] three_actions)) = [rect2, own_note]"
proof -
  note ev = initial_state_def undo_def redo_def Let_def publish_kinds publish_def
    deselectObject_def own_note_def rect2_def stroke_z7_def
  have a: "ids_distinct plain_history" "redoStack plain_history = []"
    by (simp_all add: plain_history_def ids_distinct_def initial_state_def own_note_def rect2_def)
  have b: "history_ready [10, 11, 12] plain_history"
    by (simp add: plain_history_def ev)
  have c: "exact_ready ([], [], []) [10, 11, 12] plain_history"
    by (simp add: plain_history_def ev entity_ids_def removes_last_def kept_def)
  have d: "objects (fold undo [10, 11, 12] plain_history) = [rect2]"
    "strokes (fold undo [10, 11, 12] plain_history) = [stroke_z7]"
    by (simp_all add: plain_history_def ev)
  have a': "ids_distinct three_actions" "redoStack three_actions = []"
    by (simp_all add: three_actions_def ids_distinct_def initial_state_def own_note_def rect2_def)
  have b': "history_ready [10, 11, 12] three_actions"
    by (simp add: three_actions_def ev)
  have c': "objects three_actions = [own_note, rect2]"
    "objects (fold redo [13, 14, 15] (fold undo [10, 11, 12] three_actions)) = [rect2, own_note]"
    by (simp_all add: three_actions_def ev)
  from undo_all_redo_all [OF a b, of "[13, 14, 15]"]
       undo_all_redo_all [OF a' b', of "[13, 14, 15]"] a b c d a' b' c'
  show ?thesis by simp
qed

end
